theory Spec2Isabelle
  imports Main "HOL-Library.AList" "HOL-Library.Sublist"
begin

section \<open>JavaScript values, strings and errors\<close>

text \<open>
  Strings are lists of characters. The model covers ASCII text: \<open>toUpperCase\<close> and the
  regular-expression classes of the source are modelled on ASCII, where they agree with
  JavaScript's behaviour on UTF-16 code units.
\<close>

datatype error =
    Error string        \<comment> \<open>\<open>throw new Error(message)\<close>\<close>
  | TypeError string    \<comment> \<open>a property read or method call on a value that has none\<close>
  | SyntaxError         \<comment> \<open>\<open>JSON.parse\<close> on malformed text\<close>
  | IOError             \<comment> \<open>a failing \<open>readFileSync\<close> or \<open>writeFileSync\<close>\<close>

text \<open>
  The values \<open>JSON.parse\<close> can return, with \<open>undefined\<close> for an absent property. A number
  is kept as its decimal text (what \<open>String(n)\<close> gives), so that no floating point
  arithmetic is needed: zero is the text \<open>0\<close>. An object is the list of its own
  properties, each key once.
\<close>

datatype jsval =
    JUndefined
  | JNull
  | JBool bool
  | JNum string
  | JStr string
  | JArr "jsval list"
  | JObj "(string \<times> jsval) list"

definition startsWith :: "string \<Rightarrow> string \<Rightarrow> bool" where
  \<comment> \<open>\<open>s.startsWith(p)\<close>\<close>
  "startsWith s p = (take (length p) s = p)"

fun truthy :: "jsval \<Rightarrow> bool" where
  "truthy JUndefined = False"
| "truthy JNull = False"
| "truthy (JBool b) = b"
| "truthy (JNum s) = (s \<noteq> ''0'')"
| "truthy (JStr s) = (s \<noteq> [])"
| "truthy (JArr _) = True"
| "truthy (JObj _) = True"

text \<open>
  \<open>pkg.name\<close>, \<open>pkg.version\<close>, \<open>pkg.dependencies\<close>, \<open>pkg.peerDependencies\<close>: reading a
  property of \<open>null\<close> or \<open>undefined\<close> throws; no built-in prototype defines one of these
  four names, so on every other value that is not an object with the key the read gives
  \<open>undefined\<close>.
\<close>

fun get_field :: "jsval \<Rightarrow> string \<Rightarrow> error + jsval" where
  "get_field JUndefined k = Inl (TypeError (''Cannot read properties of undefined: '' @ k))"
| "get_field JNull k = Inl (TypeError (''Cannot read properties of null: '' @ k))"
| "get_field (JObj kvs) k = Inr (case map_of kvs k of Some v \<Rightarrow> v | None \<Rightarrow> JUndefined)"
| "get_field _ k = Inr JUndefined"

text \<open>The decimal digits of a natural number, as \<open>String(n)\<close> prints an index.\<close>

definition digit_char :: "nat \<Rightarrow> char" where
  "digit_char n = ''0123456789'' ! (n mod 10)"

fun show_nat :: "nat \<Rightarrow> string" where
  "show_nat n = (if n < 10 then [digit_char n] else show_nat (n div 10) @ [digit_char n])"

declare show_nat.simps [simp del]

text \<open>
  \<open>Object.keys(v)\<close> for a truthy \<open>v\<close>: the keys of an object, the indices of an array or
  of a string, nothing for a number or a boolean.
\<close>

fun object_keys :: "jsval \<Rightarrow> string list" where
  "object_keys (JObj kvs) = map fst kvs"
| "object_keys (JArr xs) = map show_nat [0..<length xs]"
| "object_keys (JStr s) = map show_nat [0..<length s]"
| "object_keys _ = []"

definition keys_or_empty :: "jsval \<Rightarrow> string list" where
  \<comment> \<open>\<open>Object.keys(v || {})\<close>\<close>
  "keys_or_empty v = (if truthy v then object_keys v else [])"

section \<open>The environment: file system, path resolution, JSON, process variables\<close>

text \<open>
  A path holds a regular file (its content, whether it can be read, whether it can be
  written) or a directory. \<open>existsSync\<close> is true of both. Reading a directory or an
  unreadable file raises, and so does writing a directory or a read-only file; writing a
  path that holds nothing creates the file.
\<close>

datatype node =
    File (content: string) (readable: bool) (writable: bool)
  | Directory

type_synonym fs = "string \<Rightarrow> node option"

definition existsSync :: "fs \<Rightarrow> string \<Rightarrow> bool" where
  "existsSync files p = (files p \<noteq> None)"

definition readFileSync :: "fs \<Rightarrow> string \<Rightarrow> error + string" where
  "readFileSync files p =
     (case files p of
        Some (File c r w) \<Rightarrow> if r then Inr c else Inl IOError
      | Some Directory \<Rightarrow> Inl IOError
      | None \<Rightarrow> Inl IOError)"

definition writeFileSync :: "fs \<Rightarrow> string \<Rightarrow> string \<Rightarrow> error + fs" where
  "writeFileSync files p c =
     (case files p of
        Some (File _ r w) \<Rightarrow> if w then Inr (files(p \<mapsto> File c r w)) else Inl IOError
      | Some Directory \<Rightarrow> Inl IOError
      | None \<Rightarrow> Inr (files(p \<mapsto> File c True True)))"

text \<open>
  The library functions the code calls and does not define: \<open>path.resolve\<close>,
  \<open>JSON.parse\<close> (\<open>None\<close> when it throws), the variable \<open>process.env.ROLLUP_WATCH\<close>, the
  length of \<open>gzipSync(Buffer.from(code))\<close>, and whether the TypeScript compiler's
  \<open>readConfigFile\<close> reads the text of a project file without a diagnostic.
\<close>

record env =
  resolve :: "string \<Rightarrow> string \<Rightarrow> string"
  json_parse :: "string \<Rightarrow> jsval option"
  ROLLUP_WATCH :: "string option"
  gzip_length :: "string \<Rightarrow> nat"
  ts_readConfigFile :: "string \<Rightarrow> bool"

section \<open>create-config.js\<close>

definition getPackageJson :: "env \<Rightarrow> fs \<Rightarrow> string \<Rightarrow> error + jsval" where
  "getPackageJson e files packageDir =
     (let pkgPath = resolve e packageDir ''package.json'' in
      if \<not> existsSync files pkgPath
      then Inl (Error (''package.json not found in '' @ packageDir))
      else case readFileSync files pkgPath of
             Inl err \<Rightarrow> Inl err
           | Inr txt \<Rightarrow> (case json_parse e txt of None \<Rightarrow> Inl SyntaxError | Some v \<Rightarrow> Inr v))"

definition getTsConfigPath :: "env \<Rightarrow> fs \<Rightarrow> string \<Rightarrow> string" where
  "getTsConfigPath e files packageDir =
     (let buildTsConfig = resolve e packageDir ''tsconfig.build.json'' in
      if existsSync files buildTsConfig then buildTsConfig
      else let pkgTsConfig = resolve e packageDir ''tsconfig.json'' in
        if existsSync files pkgTsConfig then pkgTsConfig
        else resolve e packageDir ''../../tsconfig.json'')"

subsection \<open>The externality predicate\<close>

definition is_ascii_letter :: "char \<Rightarrow> bool" where
  \<comment> \<open>the class \<open>[a-zA-Z]\<close>\<close>
  "is_ascii_letter c =
     (c \<in> set ''abcdefghijklmnopqrstuvwxyzABCDEFGHIJKLMNOPQRSTUVWXYZ'')"

definition drive_letter_rooted :: "string \<Rightarrow> bool" where
  \<comment> \<open>\<open>/^[a-zA-Z]:/.test(id)\<close>\<close>
  "drive_letter_rooted s =
     (case s of c # d # _ \<Rightarrow> is_ascii_letter c \<and> d = CHR '':'' | _ \<Rightarrow> False)"

definition isExternal :: "string list \<Rightarrow> string \<Rightarrow> bool" where
  "isExternal externalDeps ident =
     (if startsWith ident ''.'' \<or> startsWith ident ''/'' \<or> drive_letter_rooted ident
      then False
      else list_ex (\<lambda>dep. ident = dep \<or> startsWith ident (dep @ ''/'')) externalDeps)"

subsection \<open>toPascalCase\<close>

definition line_terminator :: "char \<Rightarrow> bool" where
  \<comment> \<open>the characters \<open>.\<close> does not match in a regular expression without the \<open>s\<close> flag\<close>
  "line_terminator c = (c = CHR 0x0A \<or> c = CHR 0x0D)"

definition toUpperCase :: "char \<Rightarrow> char" where
  "toUpperCase c =
     (case map_of (zip ''abcdefghijklmnopqrstuvwxyz'' ''ABCDEFGHIJKLMNOPQRSTUVWXYZ'') c of
        Some u \<Rightarrow> u
      | None \<Rightarrow> c)"

definition is_separator :: "char \<Rightarrow> bool" where
  \<comment> \<open>the class \<open>[-_]\<close>\<close>
  "is_separator c = (c = CHR ''-'' \<or> c = CHR ''_'')"

text \<open>
  \<open>str.replace(/[-_](.)/g, (_, c) => c.toUpperCase())\<close>: the scan goes left to right; a
  separator followed by a character that \<open>.\<close> matches is replaced, with that character,
  by the character in upper case, and the scan goes on behind the two.
\<close>

fun replace_separators :: "string \<Rightarrow> string" where
  "replace_separators (a # b # rest) =
     (if is_separator a \<and> \<not> line_terminator b
      then toUpperCase b # replace_separators rest
      else a # replace_separators (b # rest))"
| "replace_separators s = s"

definition upper_first :: "string \<Rightarrow> string" where
  \<comment> \<open>\<open>.replace(/^(.)/, (_, c) => c.toUpperCase())\<close>\<close>
  "upper_first s =
     (case s of c # rest \<Rightarrow> if line_terminator c then s else toUpperCase c # rest | [] \<Rightarrow> [])"

definition toPascalCase :: "string \<Rightarrow> string" where
  "toPascalCase str = upper_first (replace_separators str)"

text \<open>
  \<open>name.replace(/^@.*\//, '')\<close>: \<open>.*\<close> is greedy and stays on the first line, so the
  match runs from the leading \<open>@\<close> to the last slash of the first line.
\<close>

fun last_slash :: "string \<Rightarrow> nat option" where
  \<comment> \<open>the number of characters up to and including the last slash\<close>
  "last_slash [] = None"
| "last_slash (c # cs) =
     (case last_slash cs of
        Some n \<Rightarrow> Some (Suc n)
      | None \<Rightarrow> if c = CHR ''/'' then Some 1 else None)"

definition strip_scope :: "string \<Rightarrow> string" where
  "strip_scope s =
     (case s of
        c # cs \<Rightarrow>
          if c = CHR ''@'' then
            (case last_slash (takeWhile (\<lambda>x. \<not> line_terminator x) cs) of
               Some n \<Rightarrow> drop n cs
             | None \<Rightarrow> s)
          else s
      | [] \<Rightarrow> [])"

subsection \<open>Options, build steps and descriptors\<close>

text \<open>
  The options object: \<open>None\<close> is an absent (\<open>undefined\<close>) property, which the
  destructuring replaces by its default.
\<close>

record options =
  packageDir :: "string option"
  input :: "string option"
  outputDir :: "string option"
  formats :: "string list option"
  sourcemap :: "bool option"
  minify :: "bool option"
  dts :: "bool option"
  babel :: "bool option"
  browserslist :: "string list option"
  external :: "string list option"
  globals :: "(string \<times> string) list option"
  name :: "string option"
  tsconfig :: "(string \<times> string) list option"

datatype plugin =
    NodeResolve (extensions: "string list")
  | Commonjs
  | Json
  | Typescript (ts_tsconfig: string) (ts_declaration: bool) (ts_declarationMap: bool)
      (ts_sourceMap: bool) (ts_compilerOptions: "(string \<times> string) list")
  | Babel (targets: "string list option")
      \<comment> \<open>\<open>@babel/preset-env\<close> with \<open>targets: browserslist\<close>, \<open>modules: false\<close>, \<open>useBuiltIns: false\<close>\<close>
  | Terser (compress_ecma: nat) (pure_getters: bool) (format_ecma: nat)
  | Filesize
  | UpdateReadme string
  | Dts (dts_tsconfig: string) (preserveSymlinks: bool)

record output_config =
  out_dir :: "string option"
  out_file :: "string option"
  out_format :: string
  out_sourcemap :: "bool option"
  preserveModules :: "bool option"
  preserveModulesRoot :: "string option"
  out_exports :: "string option"
  entryFileNames :: "string option"
  chunkFileNames :: "string option"
  out_name :: "string option"
  out_globals :: "(string \<times> string) list option"

record descriptor =
  cfg_input :: string
  cfg_output :: output_config
  cfg_external :: "string \<Rightarrow> bool"
  cfg_plugins :: "plugin list"

definition spread :: "(string \<times> string) list \<Rightarrow> (string \<times> string) list \<Rightarrow> (string \<times> string) list" where
  \<comment> \<open>\<open>{ ...base, ...extra }\<close>: a later key overwrites the value and keeps the position\<close>
  "spread base extra = fold (\<lambda>(k, v). AList.update k v) extra base"

text \<open>
  The factory of \<open>@rollup/plugin-typescript\<close> loads the project file when it is called,
  that is while \<open>basePlugins\<close> is built: it throws when the \<open>tsconfig\<close> path holds no
  regular file, and when the file cannot be read or \<open>readConfigFile\<close> reports a
  diagnostic for its text. The other factories only record their options.
\<close>

definition typescript ::
  "env \<Rightarrow> fs \<Rightarrow> string \<Rightarrow> bool \<Rightarrow> bool \<Rightarrow> bool \<Rightarrow> (string \<times> string) list \<Rightarrow> error + plugin" where
  "typescript e files tsconfigPath decl declMap sm compilerOptions =
     (case files tsconfigPath of
        Some (File c r w) \<Rightarrow>
          if r \<and> ts_readConfigFile e c
          then Inr (Typescript tsconfigPath decl declMap sm compilerOptions)
          else Inl (Error (''Cannot read the project file '' @ tsconfigPath))
      | Some Directory \<Rightarrow>
          Inl (Error (''Could not find specified tsconfig.json at '' @ tsconfigPath))
      | None \<Rightarrow>
          Inl (Error (''Could not find specified tsconfig.json at '' @ tsconfigPath)))"

definition basePlugins ::
  "env \<Rightarrow> fs \<Rightarrow> string \<Rightarrow> bool \<Rightarrow> string \<Rightarrow> string \<Rightarrow> (string \<times> string) list \<Rightarrow> bool
     \<Rightarrow> string list option \<Rightarrow> error + plugin list" where
  "basePlugins e files tsConfigPath sm outputPath rootDir additionalTsConfig enableBabel bl =
     (case typescript e files tsConfigPath False False sm
             (spread [(''target'', ''ESNext''), (''outDir'', outputPath), (''rootDir'', rootDir)]
                additionalTsConfig) of
        Inl err \<Rightarrow> Inl err
      | Inr ts \<Rightarrow>
          Inr ([NodeResolve [''.ts'', ''.tsx'', ''.js'', ''.jsx'', ''.json''],
                Commonjs,
                Json,
                ts]
               @ (if enableBabel then [Babel bl] else [])))"

definition minifyPlugin :: "bool \<Rightarrow> plugin option" where
  "minifyPlugin mini = (if mini then Some (Terser 2018 True 2018) else None)"

definition is_esm :: "string \<Rightarrow> bool" where
  "is_esm fmt = (fmt = ''esm'' \<or> fmt = ''es'')"

definition is_single_file :: "string \<Rightarrow> bool" where
  "is_single_file fmt = (fmt = ''umd'' \<or> fmt = ''iife'')"

definition watch_mode :: "env \<Rightarrow> bool" where
  \<comment> \<open>the truth value of \<open>process.env.ROLLUP_WATCH\<close>\<close>
  "watch_mode e = (case ROLLUP_WATCH e of None \<Rightarrow> False | Some v \<Rightarrow> v \<noteq> [])"

definition derived_name :: "jsval \<Rightarrow> error + string" where
  \<comment> \<open>\<open>toPascalCase(pkg.name.replace(/^@.*\//, ''))\<close>\<close>
  "derived_name pkg =
     (case get_field pkg ''name'' of
        Inl err \<Rightarrow> Inl err
      | Inr (JStr s) \<Rightarrow> Inr (toPascalCase (strip_scope s))
      | Inr JUndefined \<Rightarrow> Inl (TypeError ''Cannot read properties of undefined: replace'')
      | Inr JNull \<Rightarrow> Inl (TypeError ''Cannot read properties of null: replace'')
      | Inr _ \<Rightarrow> Inl (TypeError ''pkg.name.replace is not a function''))"

definition exposed_name :: "string option \<Rightarrow> jsval \<Rightarrow> error + string" where
  \<comment> \<open>\<open>name || toPascalCase(...)\<close>: the derivation runs only when \<open>name\<close> is falsy\<close>
  "exposed_name nm pkg =
     (case nm of
        Some n \<Rightarrow> if n \<noteq> [] then Inr n else derived_name pkg
      | None \<Rightarrow> derived_name pkg)"

definition outputConfig ::
  "env \<Rightarrow> string \<Rightarrow> string \<Rightarrow> bool \<Rightarrow> (string \<times> string) list \<Rightarrow> string option \<Rightarrow> jsval
     \<Rightarrow> string \<Rightarrow> error + output_config" where
  "outputConfig e outputPath rootDir sm glob nm pkg fmt =
     (let initial = \<lparr> out_dir = Some outputPath, out_file = None, out_format = fmt,
            out_sourcemap = Some sm,
            preserveModules = Some (fmt \<noteq> ''umd'' \<and> fmt \<noteq> ''iife''),
            preserveModulesRoot = Some rootDir, out_exports = Some ''named'',
            entryFileNames = None, chunkFileNames = None, out_name = None,
            out_globals = None \<rparr> in
      if fmt = ''esm'' \<or> fmt = ''es'' then
        Inr (initial \<lparr> entryFileNames := Some ''[name].mjs'',
                       chunkFileNames := Some ''[name]-[hash].mjs'' \<rparr>)
      else if fmt = ''cjs'' then
        Inr (initial \<lparr> entryFileNames := Some ''[name].cjs'',
                       chunkFileNames := Some ''[name]-[hash].cjs'' \<rparr>)
      else if fmt = ''umd'' \<or> fmt = ''iife'' then
        (case exposed_name nm pkg of
           Inl err \<Rightarrow> Inl err
         | Inr n \<Rightarrow>
             Inr (initial \<lparr> preserveModules := Some False,
                    entryFileNames := None, chunkFileNames := None,
                    out_file := Some (resolve e outputPath
                       (''index.'' @ (if fmt = ''umd'' then ''umd'' else ''iife'') @ ''.js'')),
                    out_dir := None,
                    out_name := Some n,
                    out_globals := Some glob \<rparr>))
      else Inr initial)"

definition format_plugins :: "env \<Rightarrow> plugin list \<Rightarrow> plugin option \<Rightarrow> string \<Rightarrow> string \<Rightarrow> plugin list" where
  "format_plugins e base mini pkgDir fmt =
     base
     @ (case mini of Some p \<Rightarrow> [p] | None \<Rightarrow> [])
     @ [Filesize]
     @ (if (fmt = ''esm'' \<or> fmt = ''es'') \<and> \<not> watch_mode e then [UpdateReadme pkgDir] else [])"

text \<open>
  \<open>formats.forEach(...)\<close> with \<open>configs.push(...)\<close>: the descriptors are accumulated in
  \<open>configs\<close>; an exception in the body leaves the loop and \<open>createConfig\<close>.
\<close>

fun forEach_format ::
  "(string \<Rightarrow> error + descriptor) \<Rightarrow> string list \<Rightarrow> descriptor list \<Rightarrow> error + descriptor list" where
  "forEach_format body [] configs = Inr configs"
| "forEach_format body (fmt # rest) configs =
     (case body fmt of
        Inl err \<Rightarrow> Inl err
      | Inr d \<Rightarrow> forEach_format body rest (configs @ [d]))"

definition externalDeps :: "jsval \<Rightarrow> string list \<Rightarrow> error + string list" where
  "externalDeps pkg additionalExternal =
     (case get_field pkg ''dependencies'' of
        Inl err \<Rightarrow> Inl err
      | Inr deps \<Rightarrow>
          (case get_field pkg ''peerDependencies'' of
             Inl err \<Rightarrow> Inl err
           | Inr peers \<Rightarrow> Inr (keys_or_empty deps @ keys_or_empty peers @ additionalExternal)))"

definition default :: "'a \<Rightarrow> 'a option \<Rightarrow> 'a" where
  "default d v = (case v of Some x \<Rightarrow> x | None \<Rightarrow> d)"

text \<open>
  The body of the loop, for one format: \<open>base\<close> is the list \<open>basePlugins\<close>, built once
  before the loop.
\<close>

definition format_descriptor ::
  "env \<Rightarrow> options \<Rightarrow> string \<Rightarrow> jsval \<Rightarrow> plugin list \<Rightarrow> string list \<Rightarrow> string \<Rightarrow> error + descriptor" where
  "format_descriptor e opts pkgDir pkg base deps fmt =
     (let inputPath = resolve e pkgDir (default ''src/index.ts'' (input opts));
          outputPath = resolve e pkgDir (default ''dist'' (outputDir opts));
          rootDir = resolve e pkgDir ''src'';
          sm = default True (sourcemap opts)
      in case outputConfig e outputPath rootDir sm (default [] (globals opts)) (name opts) pkg fmt of
           Inl err \<Rightarrow> Inl err
         | Inr out \<Rightarrow>
             Inr \<lparr> cfg_input = inputPath,
                   cfg_output = out,
                   cfg_external = isExternal deps,
                   cfg_plugins =
                     format_plugins e base (minifyPlugin (default True (minify opts))) pkgDir fmt \<rparr>)"

definition dts_descriptor :: "env \<Rightarrow> options \<Rightarrow> string \<Rightarrow> string \<Rightarrow> string list \<Rightarrow> descriptor" where
  "dts_descriptor e opts pkgDir tsConfigPath deps =
     (let inputPath = resolve e pkgDir (default ''src/index.ts'' (input opts));
          outputPath = resolve e pkgDir (default ''dist'' (outputDir opts))
      in \<lparr> cfg_input = inputPath,
           cfg_output = \<lparr> out_dir = None, out_file = Some (resolve e outputPath ''index.d.ts''),
              out_format = ''esm'', out_sourcemap = None, preserveModules = None,
              preserveModulesRoot = None, out_exports = None, entryFileNames = None,
              chunkFileNames = None, out_name = None, out_globals = None \<rparr>,
           cfg_external = isExternal deps,
           cfg_plugins = [Dts tsConfigPath False] \<rparr>)"

definition createConfig :: "env \<Rightarrow> fs \<Rightarrow> options \<Rightarrow> error + descriptor list" where
  "createConfig e files opts =
     (case packageDir opts of
        None \<Rightarrow> Inl (Error ''packageDir is required'')
      | Some pkgDir \<Rightarrow>
          if pkgDir = [] then Inl (Error ''packageDir is required'')
          else
            (case getPackageJson e files pkgDir of
               Inl err \<Rightarrow> Inl err
             | Inr pkg \<Rightarrow>
                 let tsConfigPath = getTsConfigPath e files pkgDir in
                 (case externalDeps pkg (default [] (external opts)) of
                    Inl err \<Rightarrow> Inl err
                  | Inr deps \<Rightarrow>
                      (case basePlugins e files tsConfigPath (default True (sourcemap opts))
                              (resolve e pkgDir (default ''dist'' (outputDir opts)))
                              (resolve e pkgDir ''src'') (default [] (tsconfig opts))
                              (default True (babel opts)) (browserslist opts) of
                         Inl err \<Rightarrow> Inl err
                       | Inr base \<Rightarrow>
                           (case forEach_format (format_descriptor e opts pkgDir pkg base deps)
                                   (default [''esm'', ''cjs''] (formats opts)) [] of
                              Inl err \<Rightarrow> Inl err
                            | Inr configs \<Rightarrow>
                                Inr (if default True (dts opts)
                                     then configs @ [dts_descriptor e opts pkgDir tsConfigPath deps]
                                     else configs))))))"

definition is_declaration_step :: "plugin \<Rightarrow> bool" where
  \<comment> \<open>the step of \<open>rollup-plugin-dts\<close>\<close>
  "is_declaration_step p = (case p of Dts _ _ \<Rightarrow> True | _ \<Rightarrow> False)"

section \<open>update-readme.js\<close>

text \<open>An entry of the emitted bundle: a code chunk (\<open>type === 'chunk'\<close>) or an asset.\<close>

datatype bundle_entry = Chunk (code: string) | Asset

text \<open>
  \<open>`${v}`\<close>: the string conversion of a parsed JSON value. An object with an own
  \<open>toString\<close> property (never a function in parsed JSON) has no primitive value, and
  the conversion throws: that is \<open>None\<close>.
\<close>

fun to_string :: "jsval \<Rightarrow> string option"
  and join_elements :: "jsval list \<Rightarrow> string option" where
  "to_string JUndefined = Some ''undefined''"
| "to_string JNull = Some ''null''"
| "to_string (JBool b) = Some (if b then ''true'' else ''false'')"
| "to_string (JNum s) = Some s"
| "to_string (JStr s) = Some s"
| "to_string (JArr xs) = join_elements xs"
| "to_string (JObj kvs) =
     (if map_of kvs ''toString'' = None then Some ''[object Object]'' else None)"
| "join_elements [] = Some []"
| "join_elements (x # xs) =
     (case (if x = JUndefined \<or> x = JNull then Some [] else to_string x) of
        None \<Rightarrow> None
      | Some s \<Rightarrow>
          if xs = [] then Some s
          else (case join_elements xs of None \<Rightarrow> None | Some r \<Rightarrow> Some (s @ '','' @ r)))"

text \<open>
  \<open>(size / 1024).toFixed(2)\<close>: for a size below \<open>2^53\<close> the quotient is exact in binary
  floating point, and \<open>toFixed(2)\<close> prints the integer \<open>n\<close> nearest to a hundred times the
  quotient (the larger one on a tie) with a point before its last two digits.
\<close>

definition toFixed2 :: "nat \<Rightarrow> string" where
  "toFixed2 size_bytes =
     (let n = (200 * size_bytes + 1024) div 2048
      in show_nat (n div 100) @ ''.'' @ [digit_char (n div 10), digit_char n])"

definition sizeStr :: "nat \<Rightarrow> string" where
  "sizeStr size_bytes = toFixed2 size_bytes @ ''kB''"

definition bundle_size :: "env \<Rightarrow> bundle_entry list \<Rightarrow> nat" where
  "bundle_size e bundle =
     fold (\<lambda>chunk size_bytes.
             case chunk of Chunk c \<Rightarrow> size_bytes + gzip_length e c | Asset \<Rightarrow> size_bytes)
          bundle 0"

definition version_prefix :: string where
  "version_prefix = ''![version](https://img.shields.io/badge/Version-''"

definition size_prefix :: string where
  "size_prefix = ''![minzipped size](https://img.shields.io/badge/minzipped%20size-''"

definition versionBadge :: "string \<Rightarrow> string" where
  "versionBadge version = version_prefix @ version @ ''-blue)''"

definition sizeBadge :: "string \<Rightarrow> string" where
  "sizeBadge s = size_prefix @ s @ ''-success)''"

text \<open>
  The two patterns have the shape \<open>/prefix[^)]+\)/\<close>: the literal prefix, one or more
  characters other than a closing parenthesis, a closing parenthesis. \<open>badge_match_at\<close>
  gives the length of the match at the start of a text, \<open>find_badge\<close> the index and the
  length of the leftmost match, which is the one \<open>test\<close> and \<open>replace\<close> find.
\<close>

definition badge_match_at :: "string \<Rightarrow> string \<Rightarrow> nat option" where
  "badge_match_at pre s =
     (if startsWith s pre then
        (let rest = drop (length pre) s;
             u = takeWhile (\<lambda>c. c \<noteq> CHR 0x29) rest
         in if u \<noteq> [] \<and> length u < length rest then Some (length pre + length u + 1) else None)
      else None)"

fun find_badge :: "string \<Rightarrow> string \<Rightarrow> (nat \<times> nat) option" where
  "find_badge pre [] = map_option (Pair 0) (badge_match_at pre [])"
| "find_badge pre (c # cs) =
     (case badge_match_at pre (c # cs) of
        Some n \<Rightarrow> Some (0, n)
      | None \<Rightarrow> map_option (\<lambda>(i, n). (Suc i, n)) (find_badge pre cs))"

text \<open>
  \<open>content.replace(regex, replacement)\<close> with a replacement string expands the patterns
  \<open>$$\<close>, \<open>$`\<close>, \<open>$&\<close> and \<open>$'\<close> in it; the patterns have no capture group, so \<open>$1\<close> and
  the like stay as they are.
\<close>

fun get_substitution :: "string \<Rightarrow> string \<Rightarrow> string \<Rightarrow> string \<Rightarrow> string" where
  "get_substitution matched preceding following (c # d # rest) =
     (if c = CHR ''$'' \<and> d = CHR ''$'' then CHR ''$'' # get_substitution matched preceding following rest
      else if c = CHR ''$'' \<and> d = CHR 0x60 then preceding @ get_substitution matched preceding following rest
      else if c = CHR ''$'' \<and> d = CHR ''&'' then matched @ get_substitution matched preceding following rest
      else if c = CHR ''$'' \<and> d = CHR 0x27 then following @ get_substitution matched preceding following rest
      else c # get_substitution matched preceding following (d # rest))"
| "get_substitution matched preceding following s = s"

definition replace_badge :: "string \<Rightarrow> string \<Rightarrow> string \<Rightarrow> string" where
  "replace_badge pre replacement s =
     (case find_badge pre s of
        None \<Rightarrow> s
      | Some (i, n) \<Rightarrow>
          take i s
          @ get_substitution (take n (drop i s)) (take i s) (drop (i + n) s) replacement
          @ drop (i + n) s)"

text \<open>
  Splitting the content into lines and joining lines with a line feed: a line ends at a
  line feed, and a carriage return right before it belongs to the separator.
\<close>

fun cons_first :: "char \<Rightarrow> string list \<Rightarrow> string list" where
  "cons_first c (l # ls) = (c # l) # ls"
| "cons_first c [] = [[c]]"

fun split_lines :: "string \<Rightarrow> string list" where
  "split_lines [] = [[]]"
| "split_lines [c] = (if c = CHR 0x0A then [[], []] else [[c]])"
| "split_lines (c # d # cs) =
     (if c = CHR 0x0A then [] # split_lines (d # cs)
      else if c = CHR 0x0D \<and> d = CHR 0x0A then [] # split_lines cs
      else cons_first c (split_lines (d # cs)))"

fun join_lines :: "string list \<Rightarrow> string" where
  "join_lines [] = []"
| "join_lines [l] = l"
| "join_lines (l # ls) = l @ [CHR 0x0A] @ join_lines ls"

fun findIndex :: "('a \<Rightarrow> bool) \<Rightarrow> 'a list \<Rightarrow> nat option" where
  "findIndex p [] = None"
| "findIndex p (x # xs) = (if p x then Some 0 else map_option Suc (findIndex p xs))"

fun indexOf :: "string \<Rightarrow> string \<Rightarrow> nat option" where
  "indexOf [] pat = (if pat = [] then Some 0 else None)"
| "indexOf (c # cs) pat =
     (if startsWith (c # cs) pat then Some 0 else map_option Suc (indexOf cs pat))"

text \<open>
  The two steps on the README's content: \<open>vb\<close> is the version badge, \<open>sb\<close> the size badge.
\<close>

definition update_version :: "string \<Rightarrow> string \<Rightarrow> string" where
  "update_version vb content0 =
     (if find_badge version_prefix content0 \<noteq> None then replace_badge version_prefix vb content0
      else
        (let lines = split_lines content0 in
         join_lines
           (case findIndex (\<lambda>line. startsWith line ''# '') lines of
              Some titleIndex \<Rightarrow>
                take (titleIndex + 1) lines @ [[CHR 0x0A] @ vb] @ drop (titleIndex + 1) lines
            | None \<Rightarrow> (vb @ [CHR 0x0A]) # lines)))"

definition update_size :: "string \<Rightarrow> string \<Rightarrow> string \<Rightarrow> string" where
  "update_size vb sb content1 =
     (if find_badge size_prefix content1 \<noteq> None then replace_badge size_prefix sb content1
      else
        (case indexOf content1 vb of
           Some vIndex \<Rightarrow>
             take (vIndex + length vb) content1 @ '' '' @ sb @ drop (vIndex + length vb) content1
         | None \<Rightarrow> content1))"

definition update_badges :: "env \<Rightarrow> fs \<Rightarrow> string \<Rightarrow> bundle_entry list \<Rightarrow> error + fs" where
  \<comment> \<open>the body of the \<open>try\<close> block\<close>
  "update_badges e files pkgDir bundle =
     (let readmePath = resolve e pkgDir ''README.md'';
          pkgPath = resolve e pkgDir ''package.json'' in
      case readFileSync files pkgPath of
        Inl err \<Rightarrow> Inl err
      | Inr txt \<Rightarrow>
          (case json_parse e txt of
             None \<Rightarrow> Inl SyntaxError
           | Some pkg \<Rightarrow>
               (case get_field pkg ''version'' of
                  Inl err \<Rightarrow> Inl err
                | Inr version \<Rightarrow>
                    let sb = sizeBadge (sizeStr (bundle_size e bundle)) in
                    (case to_string version of
                       None \<Rightarrow> Inl (TypeError ''Cannot convert object to primitive value'')
                     | Some v \<Rightarrow>
                         let vb = versionBadge v in
                         (case readFileSync files readmePath of
                            Inl err \<Rightarrow> Inl err
                          | Inr content0 \<Rightarrow>
                              writeFileSync files readmePath
                                (update_size vb sb (update_version vb content0)))))))"

text \<open>
  What \<open>writeBundle\<close> can change: the files, and the error stream \<open>console.error\<close> writes
  to. Its result is \<open>Inl\<close> when an exception leaves it.
\<close>

record world =
  w_files :: fs
  w_stderr :: "error list"

definition writeBundle :: "env \<Rightarrow> string \<Rightarrow> bundle_entry list \<Rightarrow> world \<Rightarrow> error + world" where
  "writeBundle e pkgDir bundle w =
     (let readmePath = resolve e pkgDir ''README.md'';
          pkgPath = resolve e pkgDir ''package.json'' in
      if \<not> existsSync (w_files w) readmePath \<or> \<not> existsSync (w_files w) pkgPath then Inr w
      else
        (case update_badges e (w_files w) pkgDir bundle of
           Inr files' \<Rightarrow> Inr (w \<lparr> w_files := files' \<rparr>)
         | Inl err \<Rightarrow> Inr (w \<lparr> w_stderr := w_stderr w @ [err] \<rparr>)))"

text \<open>The content one run writes, from the content it reads.\<close>

definition run_update :: "string \<Rightarrow> string \<Rightarrow> string \<Rightarrow> string" where
  "run_update vb sb content0 = update_size vb sb (update_version vb content0)"

section \<open>The name derivation as the specification words it\<close>

text \<open>
  The specification's rule, for the comparison with \<open>toPascalCase\<close>: strip a leading
  \<open>@scope/\<close> segment (through the first slash), then put the first letter and each letter
  that follows a \<open>-\<close> or \<open>_\<close> in upper case, removing that separator.
\<close>

definition spec_strip_scope :: "string \<Rightarrow> string" where
  "spec_strip_scope s =
     (case s of
        c # cs \<Rightarrow>
          if c = CHR ''@'' \<and> CHR ''/'' \<in> set cs
          then tl (dropWhile (\<lambda>x. x \<noteq> CHR ''/'') cs)
          else s
      | [] \<Rightarrow> [])"

fun spec_pascal_scan :: "string \<Rightarrow> string" where
  "spec_pascal_scan (a # b # rest) =
     (if is_separator a \<and> is_ascii_letter b
      then toUpperCase b # spec_pascal_scan rest
      else a # spec_pascal_scan (b # rest))"
| "spec_pascal_scan s = s"

definition spec_pascal_case :: "string \<Rightarrow> string" where
  "spec_pascal_case s =
     (case spec_pascal_scan (spec_strip_scope s) of
        c # rest \<Rightarrow> toUpperCase c # rest
      | [] \<Rightarrow> [])"

text \<open>
  The names on which the two derivations agree: no line break, at most one slash, and a
  letter behind every separator that is not the last character.
\<close>

fun separators_before_letters :: "string \<Rightarrow> bool" where
  "separators_before_letters (a # b # rest) =
     ((is_separator a \<longrightarrow> is_ascii_letter b) \<and> separators_before_letters (b # rest))"
| "separators_before_letters s = True"

definition plain_name :: "string \<Rightarrow> bool" where
  "plain_name s =
     (\<not> list_ex line_terminator s \<and> count_list s (CHR ''/'') \<le> 1 \<and> separators_before_letters s)"

section \<open>Badges in a README\<close>

text \<open>
  The versions for which a badge is one match of its own pattern and is inserted unchanged:
  no closing parenthesis, no exclamation mark, no dollar sign. The number of places where a
  text occurs in a README.
\<close>

definition badge_safe :: "string \<Rightarrow> bool" where
  "badge_safe version = (CHR 0x29 \<notin> set version \<and> CHR ''!'' \<notin> set version \<and> CHR ''$'' \<notin> set version)"

definition count_occurrences :: "string \<Rightarrow> string \<Rightarrow> nat" where
  "count_occurrences pat s = length (filter (\<lambda>i. startsWith (drop i s) pat) [0..<Suc (length s)])"

section \<open>Example inputs\<close>

text \<open>
  A package directory \<open>/pkg\<close> with a manifest, the project file of the workspace two
  levels up, paths joined with a slash, and a parser that knows the manifest's text;
  variants of it for the cases the properties below are evaluated on.
\<close>

definition join_path :: "string \<Rightarrow> string \<Rightarrow> string" where
  "join_path d p = d @ ''/'' @ p"

definition example_manifest :: jsval where
  "example_manifest =
     JObj [(''name'', JStr ''@scope/my-lib''), (''version'', JStr ''1.2.3''),
           (''dependencies'', JObj [(''a'', JStr ''1'')]),
           (''peerDependencies'', JObj [(''b'', JStr ''1'')])]"

definition example_env :: env where
  "example_env =
     \<lparr> resolve = join_path,
       json_parse = (\<lambda>t. if t = ''manifest text'' then Some example_manifest else None),
       ROLLUP_WATCH = None,
       gzip_length = length,
       ts_readConfigFile = (\<lambda>t. t = ''{}'') \<rparr>"

definition example_fs :: fs where
  "example_fs =
     [''/pkg/package.json'' \<mapsto> File ''manifest text'' True True,
      ''/pkg/../../tsconfig.json'' \<mapsto> File ''{}'' True True]"

definition example_options :: options where
  "example_options =
     \<lparr> packageDir = Some ''/pkg'', input = None, outputDir = None, formats = None,
       sourcemap = None, minify = None, dts = None, babel = None, browserslist = None,
       external = Some [''c''], globals = None, name = None, tsconfig = None \<rparr>"

definition override_options :: options where
  "override_options = example_options \<lparr> tsconfig := Some [(''target'', ''ES5'')] \<rparr>"

definition targeted_options :: options where
  "targeted_options = override_options \<lparr> browserslist := Some [''chrome 80''] \<rparr>"

definition nameless_manifest :: jsval where
  "nameless_manifest = JObj [(''version'', JStr ''0.1.0'')]"

definition nameless_env :: env where
  "nameless_env = example_env \<lparr> json_parse := (\<lambda>t. Some nameless_manifest) \<rparr>"

definition umd_options :: options where
  "umd_options = example_options \<lparr> formats := Some [''umd''] \<rparr>"

definition named_env :: "string \<Rightarrow> env" where
  "named_env n = example_env \<lparr> json_parse := (\<lambda>t. Some (JObj [(''name'', JStr n)])) \<rparr>"

definition readme_fs :: "string \<Rightarrow> fs" where
  "readme_fs txt = example_fs(''/pkg/README.md'' \<mapsto> File txt True True)"

definition readonly_fs :: fs where
  "readonly_fs = example_fs(''/pkg/README.md'' \<mapsto> File ''# T'' True False)"

definition broken_env :: env where
  "broken_env = example_env \<lparr> json_parse := (\<lambda>t. None) \<rparr>"

definition versioned_env :: "string \<Rightarrow> env" where
  "versioned_env v = example_env \<lparr> json_parse := (\<lambda>t. Some (JObj [(''version'', JStr v)])) \<rparr>"

section \<open>Properties of create-config.js\<close>

subsection \<open>The loop over the formats and the externality predicate\<close>

lemma forEach_format_result:
  "forEach_format body fmts acc = Inr cs \<Longrightarrow>
     \<exists>ds. cs = acc @ ds \<and> list_all2 (\<lambda>fmt d. body fmt = Inr d) fmts ds"
proof (induction fmts arbitrary: acc)
  case Nil
  then show ?case by simp
next
  case (Cons fmt rest)
  from Cons.prems obtain d where d: "body fmt = Inr d"
    and rec: "forEach_format body rest (acc @ [d]) = Inr cs"
    by (auto split: sum.splits)
  from Cons.IH [OF rec] obtain ds where "cs = (acc @ [d]) @ ds"
    and "list_all2 (\<lambda>fmt d. body fmt = Inr d) rest ds" by blast
  with d show ?case by (intro exI [of _ "d # ds"]) simp
qed

lemma startsWith_char: "startsWith s [c] \<longleftrightarrow> (\<exists>r. s = c # r)"
  by (cases s) (auto simp: startsWith_def)

lemma startsWith_iff: "startsWith s p \<longleftrightarrow> (\<exists>r. s = p @ r)"
  unfolding startsWith_def
  by (metis append_eq_conv_conj append_take_drop_id)

lemma drive_letter_rooted_iff:
  "drive_letter_rooted s \<longleftrightarrow> (\<exists>c r. is_ascii_letter c \<and> s = c # CHR '':'' # r)"
  by (auto simp: drive_letter_rooted_def split: list.splits)

lemma isExternal_iff:
  "isExternal deps ident \<longleftrightarrow>
     \<not> (\<exists>r. ident = CHR ''.'' # r) \<and> \<not> (\<exists>r. ident = CHR ''/'' # r) \<and>
     \<not> (\<exists>c r. is_ascii_letter c \<and> ident = c # CHR '':'' # r) \<and>
     (\<exists>dep\<in>set deps. ident = dep \<or> (\<exists>r. ident = dep @ ''/'' @ r))"
  unfolding isExternal_def startsWith_char drive_letter_rooted_iff list_ex_iff startsWith_iff
  by auto

lemma createConfig_external:
  assumes "createConfig e files opts = Inr configs" and "d \<in> set configs"
  shows "\<exists>pkgDir pkg deps. packageDir opts = Some pkgDir \<and> getPackageJson e files pkgDir = Inr pkg \<and>
     externalDeps pkg (default [] (external opts)) = Inr deps \<and> cfg_external d = isExternal deps"
proof -
  from assms(1) obtain pkgDir pkg deps base cs where p: "packageDir opts = Some pkgDir"
    and g: "getPackageJson e files pkgDir = Inr pkg"
    and x: "externalDeps pkg (default [] (external opts)) = Inr deps"
    and f: "forEach_format (format_descriptor e opts pkgDir pkg base deps)
              (default [''esm'', ''cjs''] (formats opts)) [] = Inr cs"
    and c: "configs = (if default True (dts opts)
                       then cs @ [dts_descriptor e opts pkgDir (getTsConfigPath e files pkgDir) deps] else cs)"
    by (auto simp: createConfig_def Let_def split: option.splits if_splits sum.splits)
  from forEach_format_result [OF f] have
    la: "list_all2 (\<lambda>fmt d. format_descriptor e opts pkgDir pkg base deps fmt = Inr d)
          (default [''esm'', ''cjs''] (formats opts)) cs" by simp
  have "cfg_external d = isExternal deps"
  proof (cases "d \<in> set cs")
    case True
    then obtain i where "i < length cs" "cs ! i = d" by (auto simp: in_set_conv_nth)
    with la have "format_descriptor e opts pkgDir pkg base deps
        (default [''esm'', ''cjs''] (formats opts) ! i) = Inr d"
      by (auto simp: list_all2_conv_all_nth)
    then show ?thesis
      by (auto simp: format_descriptor_def Let_def split: sum.splits)
  next
    case False
    with assms(2) c have "d = dts_descriptor e opts pkgDir (getTsConfigPath e files pkgDir) deps"
      by (auto split: if_splits)
    then show ?thesis by (simp add: dts_descriptor_def Let_def)
  qed
  with p g x show ?thesis by blast
qed

lemma typescript_ok:
  "files p = Some (File c True w) \<Longrightarrow> ts_readConfigFile e c \<Longrightarrow>
     typescript e files p decl declMap sm copts = Inr (Typescript p decl declMap sm copts)"
  by (simp add: typescript_def)

lemma typescript_Inr:
  "typescript e files p decl declMap sm copts = Inr ts \<Longrightarrow>
     ts = Typescript p decl declMap sm copts \<and> (\<exists>c w. files p = Some (File c True w) \<and> ts_readConfigFile e c)"
  by (auto simp: typescript_def split: option.splits node.splits if_splits)

lemma basePlugins_ok:
  "files tsc = Some (File c True w) \<Longrightarrow> ts_readConfigFile e c \<Longrightarrow>
     basePlugins e files tsc sm outp root ts bb bl =
       Inr ([NodeResolve [''.ts'', ''.tsx'', ''.js'', ''.jsx'', ''.json''], Commonjs, Json,
             Typescript tsc False False sm
               (spread [(''target'', ''ESNext''), (''outDir'', outp), (''rootDir'', root)] ts)]
            @ (if bb then [Babel bl] else []))"
  by (simp add: basePlugins_def typescript_ok)

lemma basePlugins_Inr:
  assumes "basePlugins e files tsc sm outp root ts bb bl = Inr base"
  shows "base =
       [NodeResolve [''.ts'', ''.tsx'', ''.js'', ''.jsx'', ''.json''], Commonjs, Json,
        Typescript tsc False False sm
          (spread [(''target'', ''ESNext''), (''outDir'', outp), (''rootDir'', root)] ts)]
       @ (if bb then [Babel bl] else [])"
proof -
  from assms obtain t where
    t: "typescript e files tsc False False sm
          (spread [(''target'', ''ESNext''), (''outDir'', outp), (''rootDir'', root)] ts) = Inr t"
    and b: "base = [NodeResolve [''.ts'', ''.tsx'', ''.js'', ''.jsx'', ''.json''], Commonjs, Json, t]
              @ (if bb then [Babel bl] else [])"
    by (auto simp: basePlugins_def split: sum.splits)
  from typescript_Inr [OF t] b show ?thesis by simp
qed

lemma example_resolve: "resolve example_env a b = a @ ''/'' @ b"
  by (simp add: example_env_def join_path_def)

lemma example_watch_mode: "\<not> watch_mode example_env"
  by (simp add: example_env_def watch_mode_def)

lemma example_getTsConfigPath:
  "getTsConfigPath example_env example_fs ''/pkg'' = ''/pkg/../../tsconfig.json''"
  by (simp add: getTsConfigPath_def example_resolve example_fs_def existsSync_def)

lemma example_project_file:
  "example_fs ''/pkg/../../tsconfig.json'' = Some (File ''{}'' True True)"
  "ts_readConfigFile example_env ''{}''"
  by (simp_all add: example_fs_def example_env_def)

lemma example_basePlugins:
  "basePlugins example_env example_fs ''/pkg/../../tsconfig.json'' sm outp root ts bb bl =
     Inr ([NodeResolve [''.ts'', ''.tsx'', ''.js'', ''.jsx'', ''.json''], Commonjs, Json,
           Typescript ''/pkg/../../tsconfig.json'' False False sm
             (spread [(''target'', ''ESNext''), (''outDir'', outp), (''rootDir'', root)] ts)]
          @ (if bb then [Babel bl] else []))"
  by (rule basePlugins_ok [where files = example_fs and tsc = "''/pkg/../../tsconfig.json''",
        OF example_project_file])

lemma example_basePlugins_for:
  "ts_readConfigFile e ''{}'' \<Longrightarrow>
   basePlugins e example_fs ''/pkg/../../tsconfig.json'' sm outp root ts bb bl =
     Inr ([NodeResolve [''.ts'', ''.tsx'', ''.js'', ''.jsx'', ''.json''], Commonjs, Json,
           Typescript ''/pkg/../../tsconfig.json'' False False sm
             (spread [(''target'', ''ESNext''), (''outDir'', outp), (''rootDir'', root)] ts)]
          @ (if bb then [Babel bl] else []))"
  by (rule basePlugins_ok [where files = example_fs and tsc = "''/pkg/../../tsconfig.json''",
        OF example_project_file(1)])

lemma named_reads: "ts_readConfigFile (named_env n) ''{}''"
  by (simp add: named_env_def example_env_def)

lemma example_getPackageJson:
  "getPackageJson example_env example_fs ''/pkg'' = Inr example_manifest"
  by (simp add: getPackageJson_def example_env_def example_fs_def join_path_def
      existsSync_def readFileSync_def)

text \<open>
  Claim C1. The externality predicate of every descriptor that \<open>createConfig\<close> returns
  holds of a specifier exactly when the specifier does not start with a dot or a slash,
  is not rooted at a drive letter, and is equal to, or continues with a slash, one of the
  keys of the manifest's \<open>dependencies\<close>, the keys of its \<open>peerDependencies\<close> or the
  caller's \<open>external\<close> list.
\<close>

theorem C1_external_iff:
  assumes "createConfig e files opts = Inr configs" and "d \<in> set configs"
    and "packageDir opts = Some pkgDir" and "getPackageJson e files pkgDir = Inr pkg"
    and "get_field pkg ''dependencies'' = Inr deps"
    and "get_field pkg ''peerDependencies'' = Inr peers"
  shows "cfg_external d ident \<longleftrightarrow>
     \<not> (\<exists>r. ident = CHR ''.'' # r) \<and> \<not> (\<exists>r. ident = CHR ''/'' # r) \<and>
     \<not> (\<exists>c r. is_ascii_letter c \<and> ident = c # CHR '':'' # r) \<and>
     (\<exists>dep \<in> set (keys_or_empty deps) \<union> set (keys_or_empty peers) \<union> set (default [] (external opts)).
        ident = dep \<or> (\<exists>r. ident = dep @ ''/'' @ r))"
proof -
  from createConfig_external [OF assms(1,2)] assms(3,4) obtain ds
    where x: "externalDeps pkg (default [] (external opts)) = Inr ds"
      and c: "cfg_external d = isExternal ds" by auto
  from x assms(5,6) have "set ds =
      set (keys_or_empty deps) \<union> set (keys_or_empty peers) \<union> set (default [] (external opts))"
    by (auto simp: externalDeps_def)
  with c show ?thesis by (simp only: isExternal_iff)
qed

lemma example_createConfig:
  "\<exists>d1 d2 d3. createConfig example_env example_fs example_options = Inr [d1, d2, d3]"
  by (simp add: createConfig_def example_getPackageJson example_options_def
      externalDeps_def example_manifest_def default_def format_descriptor_def
      outputConfig_def Let_def example_getTsConfigPath example_basePlugins)

text \<open>
  The example of the specification: dependencies \<open>a\<close>, peer dependencies \<open>b\<close>, caller
  externals \<open>c\<close>.
\<close>

theorem C1_external_witness:
  "\<exists>cs. createConfig example_env example_fs example_options = Inr cs \<and> cs \<noteq> [] \<and>
     list_all (\<lambda>d. cfg_external d ''a'' \<and> cfg_external d ''a/sub'' \<and> cfg_external d ''b'' \<and>
        cfg_external d ''c'' \<and> \<not> cfg_external d ''./a'' \<and> \<not> cfg_external d ''/abs/a'' \<and>
        \<not> cfg_external d ''d'') cs"
proof -
  from example_createConfig obtain cs
    where cs: "createConfig example_env example_fs example_options = Inr cs" "cs \<noteq> []" by auto
  have "cfg_external d ''a'' \<and> cfg_external d ''a/sub'' \<and> cfg_external d ''b'' \<and>
        cfg_external d ''c'' \<and> \<not> cfg_external d ''./a'' \<and> \<not> cfg_external d ''/abs/a'' \<and>
        \<not> cfg_external d ''d''" if "d \<in> set cs" for d
    using C1_external_iff [OF cs(1) that _ example_getPackageJson, of "JObj [(''a'', JStr ''1'')]"
        "JObj [(''b'', JStr ''1'')]"]
    by (simp add: example_options_def example_manifest_def keys_or_empty_def default_def)
  with cs show ?thesis by (auto simp: list_all_iff)
qed

subsection \<open>When \<open>createConfig\<close> returns, and what\<close>

lemma forEach_format_total:
  "\<forall>fmt\<in>set fmts. body fmt = Inr (g fmt) \<Longrightarrow> forEach_format body fmts acc = Inr (acc @ map g fmts)"
  by (induction fmts arbitrary: acc) simp_all

lemma forEach_format_error:
  assumes "\<forall>fmt\<in>set fmts. body fmt = Inl err \<or> (\<exists>d. body fmt = Inr d)"
    and "\<exists>fmt\<in>set fmts. body fmt = Inl err"
  shows "forEach_format body fmts acc = Inl err"
  using assms
proof (induction fmts arbitrary: acc)
  case Nil
  then show ?case by simp
next
  case (Cons fmt rest)
  show ?case
  proof (cases "body fmt")
    case (Inl a)
    with Cons.prems(1) show ?thesis by auto
  next
    case (Inr d)
    with Cons.prems have "\<exists>f\<in>set rest. body f = Inl err" by auto
    with Cons.IH [of "acc @ [d]"] Cons.prems(1) Inr show ?thesis by simp
  qed
qed

lemma get_field_total:
  "pkg \<noteq> JNull \<Longrightarrow> pkg \<noteq> JUndefined \<Longrightarrow> \<exists>v. get_field pkg k = Inr v"
  by (cases pkg) simp_all

lemma get_field_Inr_nonnull: "get_field pkg k = Inr v \<Longrightarrow> pkg \<noteq> JNull \<and> pkg \<noteq> JUndefined"
  by (cases pkg) simp_all

lemma externalDeps_total:
  "pkg \<noteq> JNull \<Longrightarrow> pkg \<noteq> JUndefined \<Longrightarrow> \<exists>deps. externalDeps pkg extra = Inr deps"
  using get_field_total [of pkg "''dependencies''"] get_field_total [of pkg "''peerDependencies''"]
  by (auto simp: externalDeps_def)

lemma outputConfig_plain:
  "\<not> is_single_file fmt \<Longrightarrow>
     \<exists>out. outputConfig e outputPath rootDir sm glob nm pkg fmt = Inr out \<and> out_format out = fmt"
  by (simp add: outputConfig_def is_single_file_def Let_def)

lemma outputConfig_single_file:
  "is_single_file fmt \<Longrightarrow>
     outputConfig e outputPath rootDir sm glob nm pkg fmt =
       (case exposed_name nm pkg of
          Inl err \<Rightarrow> Inl err
        | Inr n \<Rightarrow> Inr \<lparr> out_dir = None,
            out_file = Some (resolve e outputPath (''index.'' @ fmt @ ''.js'')),
            out_format = fmt, out_sourcemap = Some sm, preserveModules = Some False,
            preserveModulesRoot = Some rootDir, out_exports = Some ''named'',
            entryFileNames = None, chunkFileNames = None, out_name = Some n,
            out_globals = Some glob \<rparr>)"
proof -
  assume "is_single_file fmt"
  then consider "fmt = ''umd''" | "fmt = ''iife''" by (auto simp: is_single_file_def)
  then show ?thesis
  proof cases
    case 1
    then show ?thesis by (cases "exposed_name nm pkg") (simp_all add: outputConfig_def)
  next
    case 2
    then show ?thesis by (cases "exposed_name nm pkg") (simp_all add: outputConfig_def)
  qed
qed

lemma format_descriptor_ok:
  assumes "is_single_file fmt \<longrightarrow> (\<exists>n. exposed_name (name opts) pkg = Inr n)"
  shows "\<exists>d. format_descriptor e opts pkgDir pkg base deps fmt = Inr d \<and>
     out_format (cfg_output d) = fmt \<and> cfg_external d = isExternal deps \<and>
     cfg_plugins d = format_plugins e base (minifyPlugin (default True (minify opts))) pkgDir fmt"
proof (cases "is_single_file fmt")
  case True
  with assms obtain n where "exposed_name (name opts) pkg = Inr n" by blast
  with True show ?thesis
    by (simp add: format_descriptor_def Let_def outputConfig_single_file)
next
  case False
  from outputConfig_plain [OF False] obtain out where
    "outputConfig e (resolve e pkgDir (default ''dist'' (outputDir opts))) (resolve e pkgDir ''src'')
       (default True (sourcemap opts)) (default [] (globals opts)) (name opts) pkg fmt = Inr out"
    and "out_format out = fmt" by blast
  then show ?thesis
    by (simp add: format_descriptor_def Let_def)
qed

lemma format_descriptor_error:
  "format_descriptor e opts pkgDir pkg base deps fmt = Inl err \<Longrightarrow>
     is_single_file fmt \<and> exposed_name (name opts) pkg = Inl err"
proof (cases "is_single_file fmt")
  case True
  assume "format_descriptor e opts pkgDir pkg base deps fmt = Inl err"
  with True show ?thesis
    by (cases "exposed_name (name opts) pkg")
      (simp_all add: format_descriptor_def Let_def outputConfig_single_file)
next
  case False
  assume a: "format_descriptor e opts pkgDir pkg base deps fmt = Inl err"
  from outputConfig_plain [OF False] obtain out where
    "outputConfig e (resolve e pkgDir (default ''dist'' (outputDir opts))) (resolve e pkgDir ''src'')
       (default True (sourcemap opts)) (default [] (globals opts)) (name opts) pkg fmt = Inr out"
    by blast
  with a show ?thesis by (simp add: format_descriptor_def Let_def)
qed

lemma format_plugins_no_dts:
  "basePlugins e files tsc sm outp root ts bb bl = Inr base \<Longrightarrow>
     \<not> list_ex is_declaration_step (format_plugins e base (minifyPlugin mini) pkgDir fmt)"
  by (drule basePlugins_Inr)
    (simp add: format_plugins_def minifyPlugin_def is_declaration_step_def)

lemma createConfig_Inr:
  assumes "createConfig e files opts = Inr cs" and "packageDir opts = Some pkgDir"
  shows "\<exists>pkg deps base ds.
    getPackageJson e files pkgDir = Inr pkg \<and>
    externalDeps pkg (default [] (external opts)) = Inr deps \<and>
    basePlugins e files (getTsConfigPath e files pkgDir) (default True (sourcemap opts))
       (resolve e pkgDir (default ''dist'' (outputDir opts))) (resolve e pkgDir ''src'')
       (default [] (tsconfig opts)) (default True (babel opts)) (browserslist opts) = Inr base \<and>
    list_all2 (\<lambda>fmt d. format_descriptor e opts pkgDir pkg base deps fmt = Inr d)
       (default [''esm'', ''cjs''] (formats opts)) ds \<and>
    cs = ds @ (if default True (dts opts)
                then [dts_descriptor e opts pkgDir (getTsConfigPath e files pkgDir) deps] else [])"
proof -
  from assms obtain pkg deps base ds where
        g: "getPackageJson e files pkgDir = Inr pkg"
    and x: "externalDeps pkg (default [] (external opts)) = Inr deps"
    and b: "basePlugins e files (getTsConfigPath e files pkgDir) (default True (sourcemap opts))
       (resolve e pkgDir (default ''dist'' (outputDir opts))) (resolve e pkgDir ''src'')
       (default [] (tsconfig opts)) (default True (babel opts)) (browserslist opts) = Inr base"
    and f: "forEach_format (format_descriptor e opts pkgDir pkg base deps)
              (default [''esm'', ''cjs''] (formats opts)) [] = Inr ds"
    and c: "cs = (if default True (dts opts)
                  then ds @ [dts_descriptor e opts pkgDir (getTsConfigPath e files pkgDir) deps] else ds)"
    by (auto simp: createConfig_def Let_def split: option.splits if_splits sum.splits)
  from forEach_format_result [OF f] have
    "list_all2 (\<lambda>fmt d. format_descriptor e opts pkgDir pkg base deps fmt = Inr d)
       (default [''esm'', ''cjs''] (formats opts)) ds" by simp
  moreover from c have "cs = ds @ (if default True (dts opts)
        then [dts_descriptor e opts pkgDir (getTsConfigPath e files pkgDir) deps] else [])" by simp
  ultimately show ?thesis using g x b by (intro exI conjI)
qed

lemma createConfig_ok:
  assumes p: "packageDir opts = Some pkgDir" "pkgDir \<noteq> []"
    and g: "getPackageJson e files pkgDir = Inr pkg"
    and n: "pkg \<noteq> JNull" "pkg \<noteq> JUndefined"
    and t: "files (getTsConfigPath e files pkgDir) = Some (File project True w)"
      "ts_readConfigFile e project"
    and nm: "\<forall>fmt\<in>set (default [''esm'', ''cjs''] (formats opts)).
               is_single_file fmt \<longrightarrow> (\<exists>n. exposed_name (name opts) pkg = Inr n)"
  shows "\<exists>cs. createConfig e files opts = Inr cs"
proof -
  from externalDeps_total [OF n] obtain deps
    where x: "externalDeps pkg (default [] (external opts)) = Inr deps" by blast
  from basePlugins_ok [where files = files and tsc = "getTsConfigPath e files pkgDir", OF t]
  have "\<exists>base. basePlugins e files (getTsConfigPath e files pkgDir) (default True (sourcemap opts))
       (resolve e pkgDir (default ''dist'' (outputDir opts))) (resolve e pkgDir ''src'')
       (default [] (tsconfig opts)) (default True (babel opts)) (browserslist opts) = Inr base"
    by (rule exI)
  then obtain base where
    b: "basePlugins e files (getTsConfigPath e files pkgDir) (default True (sourcemap opts))
       (resolve e pkgDir (default ''dist'' (outputDir opts))) (resolve e pkgDir ''src'')
       (default [] (tsconfig opts)) (default True (babel opts)) (browserslist opts) = Inr base" ..
  let ?body = "format_descriptor e opts pkgDir pkg base deps"
  have "\<forall>fmt\<in>set (default [''esm'', ''cjs''] (formats opts)). ?body fmt = Inr (projr (?body fmt))"
  proof
    fix fmt assume "fmt \<in> set (default [''esm'', ''cjs''] (formats opts))"
    with nm have "is_single_file fmt \<longrightarrow> (\<exists>n. exposed_name (name opts) pkg = Inr n)" by blast
    from format_descriptor_ok [OF this] obtain d where "?body fmt = Inr d" by blast
    then show "?body fmt = Inr (projr (?body fmt))" by simp
  qed
  from forEach_format_total [OF this, of "[]"] p g x b show ?thesis
    by (simp add: createConfig_def Let_def)
qed

text \<open>
  Without a project file at the path \<open>getTsConfigPath\<close> picks, the TypeScript step cannot
  be built and \<open>createConfig\<close> fails before the loop over the formats.
\<close>

lemma createConfig_no_project_file:
  assumes "packageDir opts = Some pkgDir" and "pkgDir \<noteq> []"
    and "getPackageJson e files pkgDir = Inr pkg" and "pkg \<noteq> JNull" and "pkg \<noteq> JUndefined"
    and "files (getTsConfigPath e files pkgDir) = None"
  shows "createConfig e files opts =
     Inl (Error (''Could not find specified tsconfig.json at '' @ getTsConfigPath e files pkgDir))"
proof -
  from externalDeps_total [OF assms(4,5)] obtain deps
    where "externalDeps pkg (default [] (external opts)) = Inr deps" by blast
  with assms(1,2,3,6) show ?thesis
    by (simp add: createConfig_def Let_def basePlugins_def typescript_def)
qed

lemma spread_target:
  "map_of (spread base extra) k =
     (case map_of (rev extra) k of Some v \<Rightarrow> Some v | None \<Rightarrow> map_of base k)"
  unfolding spread_def
proof (induction extra arbitrary: base)
  case Nil
  then show ?case by simp
next
  case (Cons a extra)
  obtain k' v' where a: "a = (k', v')" by (cases a)
  show ?case
    by (simp add: a Cons.IH update_conv' map_add_def split: option.splits)
qed

text \<open>
  Claim C2. For options with a package directory whose manifest is read as an object,
  with a project file that the TypeScript step can load (a readable file at the path
  \<open>getTsConfigPath\<close> picks, which \<open>readConfigFile\<close> accepts), and with a name for every
  \<open>umd\<close> or \<open>iife\<close> format that is requested, \<open>createConfig\<close>
  returns one descriptor for each requested format, in the caller's order, and none of
  them bundles declarations; when \<open>dts\<close> is requested (the default) it appends exactly one
  more descriptor, which has the declaration step alone, writes \<open>index.d.ts\<close>, and
  carries the same externality predicate as the others. For the formats \<open>esm\<close>, \<open>cjs\<close>
  with \<open>dts\<close> this is three descriptors: esm, cjs, declarations.
\<close>

theorem C2_descriptor_list:
  assumes "packageDir opts = Some pkgDir" and "pkgDir \<noteq> []"
    and "getPackageJson e files pkgDir = Inr pkg" and "pkg \<noteq> JNull" and "pkg \<noteq> JUndefined"
    and "files (getTsConfigPath e files pkgDir) = Some (File project True w)"
    and "ts_readConfigFile e project"
    and "fmts = default [''esm'', ''cjs''] (formats opts)"
    and "\<forall>fmt\<in>set fmts. is_single_file fmt \<longrightarrow> (\<exists>n. exposed_name (name opts) pkg = Inr n)"
  shows "\<exists>cs. createConfig e files opts = Inr cs \<and>
     length cs = length fmts + (if default True (dts opts) then 1 else 0) \<and>
     map (\<lambda>d. out_format (cfg_output d)) (take (length fmts) cs) = fmts \<and>
     \<not> list_ex (\<lambda>d. list_ex is_declaration_step (cfg_plugins d)) (take (length fmts) cs) \<and>
     (default True (dts opts) \<longrightarrow>
        cfg_plugins (last cs) = [Dts (getTsConfigPath e files pkgDir) False] \<and>
        out_file (cfg_output (last cs)) =
          Some (resolve e (resolve e pkgDir (default ''dist'' (outputDir opts))) ''index.d.ts'') \<and>
        (\<forall>d\<in>set cs. cfg_external d = cfg_external (last cs)))"
proof -
  from createConfig_ok [OF assms(1,2,3,4,5,6,7)] assms(8,9) obtain cs
    where cs: "createConfig e files opts = Inr cs" by blast
  let ?tsc = "getTsConfigPath e files pkgDir"
  from createConfig_Inr [OF cs assms(1)] obtain pkg' deps base ds where
    g: "getPackageJson e files pkgDir = Inr pkg'"
    and "externalDeps pkg' (default [] (external opts)) = Inr deps"
    and b: "basePlugins e files ?tsc (default True (sourcemap opts))
       (resolve e pkgDir (default ''dist'' (outputDir opts))) (resolve e pkgDir ''src'')
       (default [] (tsconfig opts)) (default True (babel opts)) (browserslist opts) = Inr base"
    and la': "list_all2 (\<lambda>fmt d. format_descriptor e opts pkgDir pkg' base deps fmt = Inr d)
       (default [''esm'', ''cjs''] (formats opts)) ds"
    and c: "cs = ds @ (if default True (dts opts) then [dts_descriptor e opts pkgDir ?tsc deps] else [])"
    by (elim exE conjE)
  from g assms(3) have "pkg' = pkg" by simp
  with la' assms(8) have
    la: "list_all2 (\<lambda>fmt d. format_descriptor e opts pkgDir pkg base deps fmt = Inr d) fmts ds"
    by simp
  from la have len: "length ds = length fmts" by (simp add: list_all2_lengthD)
  have each: "out_format (cfg_output d) = fmt \<and> cfg_external d = isExternal deps \<and>
      \<not> list_ex is_declaration_step (cfg_plugins d)"
    if "format_descriptor e opts pkgDir pkg base deps fmt = Inr d" "fmt \<in> set fmts" for fmt d
  proof -
    from that(2) assms(9) have "is_single_file fmt \<longrightarrow> (\<exists>n. exposed_name (name opts) pkg = Inr n)"
      by blast
    from format_descriptor_ok [OF this, of e pkgDir base deps] that(1) show ?thesis
      by (auto simp: format_plugins_no_dts [OF b])
  qed
  have nth: "out_format (cfg_output (ds ! i)) = fmts ! i \<and> cfg_external (ds ! i) = isExternal deps \<and>
      \<not> list_ex is_declaration_step (cfg_plugins (ds ! i))" if "i < length fmts" for i
    using each [of "fmts ! i" "ds ! i"] la that by (simp add: list_all2_conv_all_nth)
  have 1: "length cs = length fmts + (if default True (dts opts) then 1 else 0)"
    using c len by simp
  have tk: "take (length fmts) cs = ds" using c len by simp
  have 2: "map (\<lambda>d. out_format (cfg_output d)) ds = fmts"
    using nth len by (intro nth_equalityI) simp_all
  have 3: "\<not> list_ex (\<lambda>d. list_ex is_declaration_step (cfg_plugins d)) ds"
    using nth len unfolding list_ex_iff [of _ ds] by (metis in_set_conv_nth)
  have 4: "cfg_plugins (last cs) = [Dts ?tsc False] \<and>
        out_file (cfg_output (last cs)) =
          Some (resolve e (resolve e pkgDir (default ''dist'' (outputDir opts))) ''index.d.ts'') \<and>
        (\<forall>d\<in>set cs. cfg_external d = cfg_external (last cs))" if "default True (dts opts)"
  proof -
    from that c have l: "last cs = dts_descriptor e opts pkgDir ?tsc deps"
      and s: "set cs = set ds \<union> {dts_descriptor e opts pkgDir ?tsc deps}" by auto
    have "cfg_external d = isExternal deps" if "d \<in> set ds" for d
      using that nth len by (metis in_set_conv_nth)
    with l s show ?thesis by (auto simp: dts_descriptor_def Let_def)
  qed
  from cs 1 2 3 4 tk show ?thesis by auto
qed

text \<open>
  The formats \<open>esm\<close>, \<open>cjs\<close> with \<open>dts\<close>: three descriptors.
\<close>

theorem C2_descriptor_list_witness:
  "\<exists>cs. createConfig example_env example_fs
       (example_options \<lparr> formats := Some [''esm'', ''cjs''], dts := Some True \<rparr>) = Inr cs \<and>
     length cs = 3 \<and>
     map (\<lambda>d. out_format (cfg_output d)) (take 2 cs) = [''esm'', ''cjs''] \<and>
     map (\<lambda>d. entryFileNames (cfg_output d)) (take 2 cs) = [Some ''[name].mjs'', Some ''[name].cjs''] \<and>
     cfg_plugins (last cs) = [Dts ''/pkg/../../tsconfig.json'' False] \<and>
     out_file (cfg_output (last cs)) = Some ''/pkg/dist/index.d.ts''"
proof -
  let ?o = "example_options \<lparr> formats := Some [''esm'', ''cjs''], dts := Some True \<rparr>"
  have "\<forall>fmt\<in>set [''esm'', ''cjs'']. is_single_file fmt \<longrightarrow> (\<exists>n. exposed_name (name ?o) example_manifest = Inr n)"
    by (simp add: is_single_file_def)
  from C2_descriptor_list [of ?o "''/pkg''" example_env example_fs example_manifest "''{}''" True
        "[''esm'', ''cjs'']", OF _ _ example_getPackageJson _ _ _ _ _ this]
  have "\<exists>cs. createConfig example_env example_fs ?o = Inr cs \<and> length cs = 3 \<and>
     map (\<lambda>d. out_format (cfg_output d)) (take 2 cs) = [''esm'', ''cjs''] \<and>
     cfg_plugins (last cs) = [Dts (getTsConfigPath example_env example_fs ''/pkg'') False] \<and>
     out_file (cfg_output (last cs)) =
        Some (resolve example_env (resolve example_env ''/pkg'' ''dist'') ''index.d.ts'')"
    by (simp add: example_options_def example_manifest_def default_def eval_nat_numeral
        example_getTsConfigPath example_project_file)
      (elim exE conjE, intro exI conjI, assumption+)
  then obtain cs where
     "createConfig example_env example_fs ?o = Inr cs \<and> length cs = 3 \<and>
     map (\<lambda>d. out_format (cfg_output d)) (take 2 cs) = [''esm'', ''cjs''] \<and>
     cfg_plugins (last cs) = [Dts (getTsConfigPath example_env example_fs ''/pkg'') False] \<and>
     out_file (cfg_output (last cs)) =
        Some (resolve example_env (resolve example_env ''/pkg'' ''dist'') ''index.d.ts'')" ..
  then have cs: "createConfig example_env example_fs ?o = Inr cs" "length cs = 3"
     "map (\<lambda>d. out_format (cfg_output d)) (take 2 cs) = [''esm'', ''cjs'']"
     "cfg_plugins (last cs) = [Dts (getTsConfigPath example_env example_fs ''/pkg'') False]"
     "out_file (cfg_output (last cs)) =
        Some (resolve example_env (resolve example_env ''/pkg'' ''dist'') ''index.d.ts'')"
    by simp_all
  from cs(1) have "map (\<lambda>d. entryFileNames (cfg_output d)) (take 2 cs) = [Some ''[name].mjs'', Some ''[name].cjs'']"
    by (auto simp add: createConfig_def example_getPackageJson example_options_def
      externalDeps_def example_manifest_def default_def format_descriptor_def
      outputConfig_def Let_def example_getTsConfigPath example_basePlugins)
  with cs show ?thesis
    by (auto simp: getTsConfigPath_def example_env_def example_fs_def join_path_def existsSync_def)
qed

subsection \<open>Configuration errors\<close>

text \<open>
  Claim C4. When \<open>packageDir\<close> is absent (or empty), and when no \<open>package.json\<close> exists
  under it, \<open>createConfig\<close> raises an \<open>Error\<close> and returns no descriptor list.
\<close>

theorem C4_configuration_error:
  assumes "case packageDir opts of
             None \<Rightarrow> True
           | Some pkgDir \<Rightarrow> pkgDir = [] \<or> \<not> existsSync files (resolve e pkgDir ''package.json'')"
  shows "createConfig e files opts =
           Inl (Error (case packageDir opts of
                         None \<Rightarrow> ''packageDir is required''
                       | Some pkgDir \<Rightarrow>
                           if pkgDir = [] then ''packageDir is required''
                           else ''package.json not found in '' @ pkgDir))"
  using assms
  by (auto simp: createConfig_def getPackageJson_def Let_def split: option.splits)

text \<open>
  Both cases on the example file system.
\<close>

theorem C4_configuration_error_witness:
  "createConfig example_env example_fs (example_options \<lparr> packageDir := None \<rparr>) =
     Inl (Error ''packageDir is required'') \<and>
   createConfig example_env example_fs (example_options \<lparr> packageDir := Some ''/other'' \<rparr>) =
     Inl (Error ''package.json not found in /other'')"
  using C4_configuration_error [where opts = "example_options \<lparr> packageDir := None \<rparr>"
      and files = example_fs and e = example_env]
    C4_configuration_error [where opts = "example_options \<lparr> packageDir := Some ''/other'' \<rparr>"
      and files = example_fs and e = example_env]
  by (simp add: example_options_def example_resolve example_fs_def existsSync_def)

subsection \<open>A manifest without a name\<close>

lemma derived_name_undefined:
  "get_field pkg ''name'' = Inr JUndefined \<Longrightarrow>
     derived_name pkg = Inl (TypeError ''Cannot read properties of undefined: replace'')"
  by (simp add: derived_name_def)

text \<open>
  Claim C10. With \<open>umd\<close> or \<open>iife\<close> among the formats, no (or an empty) \<open>name\<close>
  option, a manifest object without a \<open>name\<close>, and a project file that the TypeScript
  step can load (so that the call gets as far as the loop over the formats),
  \<open>createConfig\<close> fails with a \<open>TypeError\<close> raised by the name derivation: it returns no
  descriptors, and the error is not one of the two configuration errors.
\<close>

theorem C10_missing_name:
  assumes "packageDir opts = Some pkgDir" and "pkgDir \<noteq> []"
    and "getPackageJson e files pkgDir = Inr pkg"
    and "get_field pkg ''name'' = Inr JUndefined"
    and "name opts = None \<or> name opts = Some []"
    and "\<exists>fmt\<in>set (default [''esm'', ''cjs''] (formats opts)). fmt = ''umd'' \<or> fmt = ''iife''"
    and "files (getTsConfigPath e files pkgDir) = Some (File project True w)"
    and "ts_readConfigFile e project"
  shows "createConfig e files opts = Inl (TypeError ''Cannot read properties of undefined: replace'')"
proof -
  let ?err = "TypeError ''Cannot read properties of undefined: replace''"
  from assms(4) have nn: "pkg \<noteq> JNull" "pkg \<noteq> JUndefined"
    using get_field_Inr_nonnull by blast+
  from externalDeps_total [OF nn] obtain deps
    where x: "externalDeps pkg (default [] (external opts)) = Inr deps" by blast
  from basePlugins_ok [where files = files and tsc = "getTsConfigPath e files pkgDir",
      OF assms(7,8)]
  have "\<exists>base. basePlugins e files (getTsConfigPath e files pkgDir) (default True (sourcemap opts))
       (resolve e pkgDir (default ''dist'' (outputDir opts))) (resolve e pkgDir ''src'')
       (default [] (tsconfig opts)) (default True (babel opts)) (browserslist opts) = Inr base"
    by (rule exI)
  then obtain base where
    bp: "basePlugins e files (getTsConfigPath e files pkgDir) (default True (sourcemap opts))
       (resolve e pkgDir (default ''dist'' (outputDir opts))) (resolve e pkgDir ''src'')
       (default [] (tsconfig opts)) (default True (babel opts)) (browserslist opts) = Inr base" ..
  let ?body = "format_descriptor e opts pkgDir pkg base deps"
  from assms(4,5) have en: "exposed_name (name opts) pkg = Inl ?err"
    by (auto simp: exposed_name_def derived_name_undefined)
  have a: "\<forall>fmt\<in>set (default [''esm'', ''cjs''] (formats opts)).
             ?body fmt = Inl ?err \<or> (\<exists>d. ?body fmt = Inr d)"
  proof
    fix fmt
    show "?body fmt = Inl ?err \<or> (\<exists>d. ?body fmt = Inr d)"
    proof (cases "?body fmt")
      case (Inl err)
      from format_descriptor_error [OF Inl] en have "err = ?err" by simp
      with Inl show ?thesis by simp
    next
      case (Inr d)
      then show ?thesis by simp
    qed
  qed
  have b: "\<exists>fmt\<in>set (default [''esm'', ''cjs''] (formats opts)). ?body fmt = Inl ?err"
  proof -
    from assms(6) obtain fmt where f: "fmt \<in> set (default [''esm'', ''cjs''] (formats opts))"
      and s: "is_single_file fmt" by (auto simp: is_single_file_def)
    from s en have "?body fmt = Inl ?err"
      by (simp add: format_descriptor_def Let_def outputConfig_single_file)
    with f show ?thesis by blast
  qed
  from forEach_format_error [OF a b, of "[]"] assms(1,2,3) x bp show ?thesis
    by (simp add: createConfig_def Let_def)
qed

lemma nameless_getPackageJson:
  "getPackageJson nameless_env example_fs ''/pkg'' = Inr nameless_manifest"
  by (simp add: getPackageJson_def nameless_env_def example_env_def example_fs_def join_path_def
      existsSync_def readFileSync_def)

lemma nameless_reads: "ts_readConfigFile nameless_env ''{}''"
  by (simp add: nameless_env_def example_env_def)

lemma nameless_getTsConfigPath:
  "getTsConfigPath nameless_env example_fs ''/pkg'' = ''/pkg/../../tsconfig.json''"
  by (simp add: getTsConfigPath_def nameless_env_def example_resolve example_fs_def existsSync_def)

text \<open>
  The format \<open>umd\<close> on a manifest that has a version only.
\<close>

theorem C10_missing_name_witness:
  "createConfig nameless_env example_fs umd_options =
     Inl (TypeError ''Cannot read properties of undefined: replace'')"
  using C10_missing_name [of umd_options "''/pkg''" nameless_env example_fs nameless_manifest
      "''{}''" True, OF _ _ nameless_getPackageJson]
  by (simp add: umd_options_def example_options_def nameless_manifest_def default_def
      nameless_getTsConfigPath example_project_file nameless_reads)

subsection \<open>The build steps\<close>

lemma format_descriptor_plugins:
  "format_descriptor e opts pkgDir pkg base deps fmt = Inr d \<Longrightarrow>
     cfg_plugins d = format_plugins e base (minifyPlugin (default True (minify opts))) pkgDir fmt"
  by (auto simp: format_descriptor_def Let_def split: sum.splits)

text \<open>
  Claim C3, as amended. The build steps of the descriptor of the \<open>i\<close>-th requested format
  are, in this order: module resolution, CommonJS interop, JSON support, TypeScript
  compilation with declaration emit off, the syntax downleveling step unless \<open>babel\<close> is
  false (configured with the caller's \<open>browserslist\<close> when one is given), the minifier
  unless \<open>minify\<close> is false, the size report, and, for the formats \<open>esm\<close> and \<open>es\<close> outside
  watch mode, the README badge updater last. The TypeScript target is \<open>ESNext\<close> unless the
  caller's \<open>tsconfig\<close> overrides name a target, which then replaces it.
\<close>

theorem C3_build_steps:
  assumes "createConfig e files opts = Inr cs"
    and "packageDir opts = Some pkgDir"
    and "fmts = default [''esm'', ''cjs''] (formats opts)"
    and "i < length fmts"
  shows "\<exists>copts bl.
     cfg_plugins (cs ! i) =
       [NodeResolve [''.ts'', ''.tsx'', ''.js'', ''.jsx'', ''.json''], Commonjs, Json,
        Typescript (getTsConfigPath e files pkgDir) False False (default True (sourcemap opts)) copts]
       @ (if default True (babel opts) then [Babel bl] else [])
       @ (if default True (minify opts) then [Terser 2018 True 2018] else [])
       @ [Filesize]
       @ (if is_esm (fmts ! i) \<and> \<not> watch_mode e then [UpdateReadme pkgDir] else []) \<and>
     map_of copts ''target'' =
       Some (case map_of (rev (default [] (tsconfig opts))) ''target'' of
               Some t \<Rightarrow> t | None \<Rightarrow> ''ESNext'') \<and>
     (\<forall>t. browserslist opts = Some t \<longrightarrow> bl = Some t)"
proof -
  let ?tsc = "getTsConfigPath e files pkgDir"
  from createConfig_Inr [OF assms(1,2)] obtain pkg deps base ds where
    "getPackageJson e files pkgDir = Inr pkg"
    and "externalDeps pkg (default [] (external opts)) = Inr deps"
    and b: "basePlugins e files ?tsc (default True (sourcemap opts))
       (resolve e pkgDir (default ''dist'' (outputDir opts))) (resolve e pkgDir ''src'')
       (default [] (tsconfig opts)) (default True (babel opts)) (browserslist opts) = Inr base"
    and la': "list_all2 (\<lambda>fmt d. format_descriptor e opts pkgDir pkg base deps fmt = Inr d)
       (default [''esm'', ''cjs''] (formats opts)) ds"
    and c: "cs = ds @ (if default True (dts opts) then [dts_descriptor e opts pkgDir ?tsc deps] else [])"
    by (elim exE conjE)
  from la' assms(3) have
    la: "list_all2 (\<lambda>fmt d. format_descriptor e opts pkgDir pkg base deps fmt = Inr d) fmts ds"
    by simp
  from la assms(4) have len: "i < length ds"
    and fd: "format_descriptor e opts pkgDir pkg base deps (fmts ! i) = Inr (ds ! i)"
    by (simp_all add: list_all2_conv_all_nth)
  from c len have "cs ! i = ds ! i" by (simp add: nth_append)
  with format_descriptor_plugins [OF fd] basePlugins_Inr [OF b]
  have "cfg_plugins (cs ! i) =
       [NodeResolve [''.ts'', ''.tsx'', ''.js'', ''.jsx'', ''.json''], Commonjs, Json,
        Typescript ?tsc False False (default True (sourcemap opts))
          (spread [(''target'', ''ESNext''),
                   (''outDir'', resolve e pkgDir (default ''dist'' (outputDir opts))),
                   (''rootDir'', resolve e pkgDir ''src'')] (default [] (tsconfig opts)))]
       @ (if default True (babel opts) then [Babel (browserslist opts)] else [])
       @ (if default True (minify opts) then [Terser 2018 True 2018] else [])
       @ [Filesize]
       @ (if is_esm (fmts ! i) \<and> \<not> watch_mode e then [UpdateReadme pkgDir] else [])"
    by (simp add: format_plugins_def minifyPlugin_def is_esm_def)
  moreover have "map_of (spread [(''target'', ''ESNext''),
                   (''outDir'', resolve e pkgDir (default ''dist'' (outputDir opts))),
                   (''rootDir'', resolve e pkgDir ''src'')] (default [] (tsconfig opts))) ''target'' =
       Some (case map_of (rev (default [] (tsconfig opts))) ''target'' of
               Some t \<Rightarrow> t | None \<Rightarrow> ''ESNext'')"
    by (simp add: spread_target split: option.splits)
  ultimately show ?thesis by blast
qed

text \<open>
  With the override \<open>target: ES5\<close> and the browsers \<open>chrome 80\<close>: the TypeScript step of
  the first descriptor compiles to ES5 and the downleveling step is given the browsers.
\<close>

theorem C3_build_steps_witness:
  "\<exists>cs. createConfig example_env example_fs targeted_options = Inr cs \<and>
     cfg_plugins (cs ! 0) =
       [NodeResolve [''.ts'', ''.tsx'', ''.js'', ''.jsx'', ''.json''], Commonjs, Json,
        Typescript ''/pkg/../../tsconfig.json'' False False True
          [(''target'', ''ES5''), (''outDir'', ''/pkg/dist''), (''rootDir'', ''/pkg/src'')],
        Babel (Some [''chrome 80'']), Terser 2018 True 2018, Filesize, UpdateReadme ''/pkg'']"
proof -
  from createConfig_ok [of targeted_options "''/pkg''" example_env example_fs example_manifest
      "''{}''" True, OF _ _ example_getPackageJson]
  obtain cs where cs: "createConfig example_env example_fs targeted_options = Inr cs"
    by (auto simp: targeted_options_def override_options_def example_options_def
        example_manifest_def default_def is_single_file_def example_getTsConfigPath
        example_project_file)
  from C3_build_steps [OF cs, of "''/pkg''" "[''esm'', ''cjs'']" 0]
  obtain copts bl where p: "cfg_plugins (cs ! 0) =
       [NodeResolve [''.ts'', ''.tsx'', ''.js'', ''.jsx'', ''.json''], Commonjs, Json,
        Typescript ''/pkg/../../tsconfig.json'' False False True copts,
        Babel bl, Terser 2018 True 2018, Filesize, UpdateReadme ''/pkg'']"
    and t: "map_of copts ''target'' = Some ''ES5''" and b: "bl = Some [''chrome 80'']"
    by (auto simp: targeted_options_def override_options_def example_options_def default_def
        example_getTsConfigPath example_watch_mode is_esm_def)
  have "ts_compilerOptions (cfg_plugins (cs ! 0) ! 3) =
      [(''target'', ''ES5''), (''outDir'', ''/pkg/dist''), (''rootDir'', ''/pkg/src'')]"
    using cs
    by (auto simp: createConfig_def example_getPackageJson example_options_def override_options_def
      targeted_options_def externalDeps_def example_manifest_def default_def format_descriptor_def
      outputConfig_def Let_def format_plugins_def example_basePlugins minifyPlugin_def spread_def
      example_getTsConfigPath example_resolve example_watch_mode)
  with p have "copts = [(''target'', ''ES5''), (''outDir'', ''/pkg/dist''), (''rootDir'', ''/pkg/src'')]"
    by simp
  with cs p b show ?thesis by blast
qed

text \<open>
  The claim as stated fails: with the caller's override \<open>tsconfig = {target: 'ES5'}\<close>
  the TypeScript target of both format descriptors is ES5, not the maximal one.
\<close>

theorem C3_counterexample:
  "\<exists>cs. createConfig example_env example_fs override_options = Inr cs \<and>
     map cfg_plugins cs =
       [[NodeResolve [''.ts'', ''.tsx'', ''.js'', ''.jsx'', ''.json''], Commonjs, Json,
         Typescript ''/pkg/../../tsconfig.json'' False False True
           [(''target'', ''ES5''), (''outDir'', ''/pkg/dist''), (''rootDir'', ''/pkg/src'')],
         Babel None, Terser 2018 True 2018, Filesize, UpdateReadme ''/pkg''],
        [NodeResolve [''.ts'', ''.tsx'', ''.js'', ''.jsx'', ''.json''], Commonjs, Json,
         Typescript ''/pkg/../../tsconfig.json'' False False True
           [(''target'', ''ES5''), (''outDir'', ''/pkg/dist''), (''rootDir'', ''/pkg/src'')],
         Babel None, Terser 2018 True 2018, Filesize],
        [Dts ''/pkg/../../tsconfig.json'' False]] \<and>
     map (\<lambda>d. map_of (ts_compilerOptions (cfg_plugins d ! 3)) ''target'') (take 2 cs) =
       [Some ''ES5'', Some ''ES5'']"
  by (simp add: createConfig_def example_getPackageJson example_options_def override_options_def
      externalDeps_def example_manifest_def default_def format_descriptor_def dts_descriptor_def
      outputConfig_def Let_def format_plugins_def example_basePlugins minifyPlugin_def spread_def
      example_getTsConfigPath example_resolve example_watch_mode)

subsection \<open>The exposed name\<close>

lemma letter_not_terminator: "is_ascii_letter c \<Longrightarrow> \<not> line_terminator c"
  by (auto simp: is_ascii_letter_def line_terminator_def)

lemma toUpperCase_terminator: "line_terminator c \<Longrightarrow> toUpperCase c = c"
  unfolding line_terminator_def by (elim disjE) (simp_all add: toUpperCase_def)

lemma upper_first_eq: "upper_first s = (case s of c # rest \<Rightarrow> toUpperCase c # rest | [] \<Rightarrow> [])"
  by (cases s) (simp_all add: upper_first_def toUpperCase_terminator)

lemma replace_separators_spec:
  "separators_before_letters s \<Longrightarrow> replace_separators s = spec_pascal_scan s"
proof (induction s rule: replace_separators.induct)
  case (1 a b rest)
  show ?case
  proof (cases "is_separator a")
    case True
    with "1.prems" have l: "is_ascii_letter b" by simp
    from "1.prems" have "separators_before_letters rest" by (cases rest) simp_all
    with "1.IH"(1) True l letter_not_terminator [OF l] show ?thesis by simp
  next
    case False
    with "1.prems" "1.IH"(2) show ?thesis by simp
  qed
qed simp_all

lemma separators_before_letters_tl:
  "separators_before_letters s \<Longrightarrow> separators_before_letters (tl s)"
  by (induction s rule: separators_before_letters.induct) simp_all

lemma separators_before_letters_drop:
  "separators_before_letters s \<Longrightarrow> separators_before_letters (drop k s)"
proof (induction k arbitrary: s)
  case 0
  then show ?case by simp
next
  case (Suc k)
  from Suc.IH [OF separators_before_letters_tl [OF Suc.prems]] show ?case
    by (simp add: drop_Suc)
qed

lemma last_slash_None: "last_slash cs = None \<longleftrightarrow> CHR ''/'' \<notin> set cs"
  by (induction cs) (auto split: option.splits)

lemma last_slash_single:
  "count_list cs (CHR ''/'') \<le> 1 \<Longrightarrow> CHR ''/'' \<in> set cs \<Longrightarrow>
     last_slash cs = Some (Suc (length (takeWhile (\<lambda>x. x \<noteq> CHR ''/'') cs)))"
proof (induction cs)
  case Nil
  then show ?case by simp
next
  case (Cons c cs)
  show ?case
  proof (cases "c = CHR ''/''")
    case True
    with Cons.prems have "count_list cs (CHR ''/'') = 0" by simp
    then have "CHR ''/'' \<notin> set cs" by (simp add: count_list_0_iff)
    then have "last_slash cs = None" by (simp add: last_slash_None)
    with True show ?thesis by simp
  next
    case False
    with Cons show ?thesis by simp
  qed
qed

lemma strip_scope_spec:
  assumes "\<not> list_ex line_terminator s" and "count_list s (CHR ''/'') \<le> 1"
  shows "strip_scope s = spec_strip_scope s"
proof (cases s)
  case Nil
  then show ?thesis by (simp add: strip_scope_def spec_strip_scope_def)
next
  case (Cons c cs)
  from assms(1) Cons have tw: "takeWhile (\<lambda>x. \<not> line_terminator x) cs = cs"
    by (auto simp: list_ex_iff intro: takeWhile_eq_all_conv [THEN iffD2])
  from assms(2) Cons have cnt: "count_list cs (CHR ''/'') \<le> 1" by (auto split: if_splits)
  show ?thesis
  proof (cases "c = CHR ''@'' \<and> CHR ''/'' \<in> set cs")
    case True
    with last_slash_single [OF cnt] have
      "last_slash cs = Some (Suc (length (takeWhile (\<lambda>x. x \<noteq> CHR ''/'') cs)))" by simp
    moreover have "drop (Suc (length (takeWhile (\<lambda>x. x \<noteq> CHR ''/'') cs))) cs =
        tl (dropWhile (\<lambda>x. x \<noteq> CHR ''/'') cs)"
      by (simp add: drop_Suc dropWhile_eq_drop tl_drop)
    ultimately show ?thesis using True Cons
      by (simp add: strip_scope_def spec_strip_scope_def tw)
  next
    case False
    show ?thesis
    proof (cases "c = CHR ''@''")
      case True
      with False have "last_slash cs = None" by (simp add: last_slash_None)
      with True False Cons show ?thesis
        by (simp add: strip_scope_def spec_strip_scope_def tw)
    next
      case c: False
      with Cons show ?thesis by (simp add: strip_scope_def spec_strip_scope_def)
    qed
  qed
qed

lemma strip_scope_suffix: "\<exists>k. strip_scope s = drop k s"
proof (cases s)
  case Nil
  then show ?thesis by (simp add: strip_scope_def)
next
  case (Cons c cs)
  show ?thesis
  proof (cases "c = CHR ''@''")
    case True
    show ?thesis
    proof (cases "last_slash (takeWhile (\<lambda>x. \<not> line_terminator x) cs)")
      case None
      with Cons True have "strip_scope s = drop 0 s" by (simp add: strip_scope_def)
      then show ?thesis by blast
    next
      case (Some n)
      with Cons True have "strip_scope s = drop (Suc n) s" by (simp add: strip_scope_def)
      then show ?thesis by blast
    qed
  next
    case False
    with Cons have "strip_scope s = drop 0 s" by (simp add: strip_scope_def)
    then show ?thesis by blast
  qed
qed

lemma toPascalCase_spec:
  assumes "plain_name n"
  shows "toPascalCase (strip_scope n) = spec_pascal_case n"
proof -
  from assms have a: "\<not> list_ex line_terminator n" "count_list n (CHR ''/'') \<le> 1"
    "separators_before_letters n" by (simp_all add: plain_name_def)
  from strip_scope_suffix obtain k where "strip_scope n = drop k n" by blast
  with a(3) have "separators_before_letters (strip_scope n)"
    by (simp add: separators_before_letters_drop)
  then have "replace_separators (strip_scope n) = spec_pascal_scan (strip_scope n)"
    by (rule replace_separators_spec)
  with strip_scope_spec [OF a(1,2)] show ?thesis
    by (simp add: toPascalCase_def spec_pascal_case_def upper_first_eq)
qed

lemma format_descriptor_name:
  assumes "format_descriptor e opts pkgDir pkg base deps fmt = Inr d"
  shows "out_format (cfg_output d) = fmt \<and>
     (is_single_file fmt \<longrightarrow> (\<exists>n. exposed_name (name opts) pkg = Inr n \<and> out_name (cfg_output d) = Some n))"
proof (cases "is_single_file fmt")
  case True
  with assms show ?thesis
    by (cases "exposed_name (name opts) pkg")
      (auto simp: format_descriptor_def Let_def outputConfig_single_file)
next
  case False
  from outputConfig_plain [OF False] obtain out where
    "outputConfig e (resolve e pkgDir (default ''dist'' (outputDir opts))) (resolve e pkgDir ''src'')
       (default True (sourcemap opts)) (default [] (globals opts)) (name opts) pkg fmt = Inr out"
    and "out_format out = fmt" by blast
  with assms False show ?thesis by (auto simp: format_descriptor_def Let_def)
qed

lemma named_getPackageJson:
  "getPackageJson (named_env n) example_fs ''/pkg'' = Inr (JObj [(''name'', JStr n)])"
  by (simp add: getPackageJson_def named_env_def example_env_def example_fs_def join_path_def
      existsSync_def readFileSync_def)

lemma named_getTsConfigPath:
  "getTsConfigPath (named_env n) example_fs ''/pkg'' = ''/pkg/../../tsconfig.json''"
  by (simp add: getTsConfigPath_def named_env_def example_resolve example_fs_def existsSync_def)

text \<open>
  Claim C5, as amended. For a \<open>umd\<close> or \<open>iife\<close> descriptor, with no (or an empty)
  \<open>name\<close> option and a manifest name that has no line break, at most one slash and a
  letter behind every separator, the exposed name is the derivation the specification
  describes.
\<close>

theorem C5_exposed_name:
  assumes "createConfig e files opts = Inr cs" and "d \<in> set cs"
    and "is_single_file (out_format (cfg_output d))"
    and "name opts = None \<or> name opts = Some []"
    and "packageDir opts = Some pkgDir" and "getPackageJson e files pkgDir = Inr pkg"
    and "get_field pkg ''name'' = Inr (JStr n)" and "plain_name n"
  shows "out_name (cfg_output d) = Some (spec_pascal_case n)"
proof -
  let ?tsc = "getTsConfigPath e files pkgDir"
  from createConfig_Inr [OF assms(1,5)] obtain pkg' deps base ds where
    g: "getPackageJson e files pkgDir = Inr pkg'"
    and "externalDeps pkg' (default [] (external opts)) = Inr deps"
    and "basePlugins e files ?tsc (default True (sourcemap opts))
       (resolve e pkgDir (default ''dist'' (outputDir opts))) (resolve e pkgDir ''src'')
       (default [] (tsconfig opts)) (default True (babel opts)) (browserslist opts) = Inr base"
    and la': "list_all2 (\<lambda>fmt d. format_descriptor e opts pkgDir pkg' base deps fmt = Inr d)
           (default [''esm'', ''cjs''] (formats opts)) ds"
    and c: "cs = ds @ (if default True (dts opts) then [dts_descriptor e opts pkgDir ?tsc deps] else [])"
    by (elim exE conjE)
  from g assms(6) have "pkg' = pkg" by simp
  with la' have
    la: "list_all2 (\<lambda>fmt d. format_descriptor e opts pkgDir pkg base deps fmt = Inr d)
           (default [''esm'', ''cjs''] (formats opts)) ds"
    by simp
  have "d \<noteq> dts_descriptor e opts pkgDir ?tsc deps"
    using assms(3) by (auto simp: dts_descriptor_def Let_def is_single_file_def)
  with assms(2) c have "d \<in> set ds" by (auto split: if_splits)
  then obtain i where i: "i < length ds" "ds ! i = d" by (auto simp: in_set_conv_nth)
  with la have fd: "format_descriptor e opts pkgDir pkg base deps
      (default [''esm'', ''cjs''] (formats opts) ! i) = Inr d"
    by (auto simp: list_all2_conv_all_nth)
  from format_descriptor_name [OF fd] assms(3) obtain m where
    "exposed_name (name opts) pkg = Inr m" "out_name (cfg_output d) = Some m" by auto
  moreover from assms(4,7) have "exposed_name (name opts) pkg = Inr (toPascalCase (strip_scope n))"
    by (auto simp: exposed_name_def derived_name_def)
  ultimately show ?thesis using toPascalCase_spec [OF assms(8)] by simp
qed

lemma umd_createConfig:
  "\<exists>cs. createConfig (named_env n) example_fs umd_options = Inr cs \<and>
     map (\<lambda>d. (out_format (cfg_output d), out_name (cfg_output d))) cs =
       [(''umd'', Some (toPascalCase (strip_scope n))), (''esm'', None)]"
  by (simp add: createConfig_def named_getPackageJson umd_options_def example_options_def
      externalDeps_def default_def format_descriptor_def dts_descriptor_def
      outputConfig_def exposed_name_def derived_name_def Let_def
      named_getTsConfigPath example_basePlugins_for [OF named_reads])

text \<open>
  The manifest name \<open>@scope/my-lib\<close> gives \<open>MyLib\<close>.
\<close>

theorem C5_exposed_name_witness:
  "\<exists>cs. createConfig (named_env ''@scope/my-lib'') example_fs umd_options = Inr cs \<and>
     map (\<lambda>d. out_name (cfg_output d)) cs = [Some ''MyLib'', None] \<and>
     spec_pascal_case ''@scope/my-lib'' = ''MyLib''"
proof -
  from umd_createConfig [of "''@scope/my-lib''"] obtain cs where
    cs: "createConfig (named_env ''@scope/my-lib'') example_fs umd_options = Inr cs"
    and m: "map (\<lambda>d. (out_format (cfg_output d), out_name (cfg_output d))) cs =
       [(''umd'', Some (toPascalCase (strip_scope ''@scope/my-lib''))), (''esm'', None)]"
    by (elim exE conjE)
  from m obtain d1 d2 where ds: "cs = [d1, d2]"
    "out_format (cfg_output d1) = ''umd''" "out_name (cfg_output d2) = None" by auto
  have pn: "plain_name ''@scope/my-lib''"
    by (simp add: plain_name_def is_separator_def is_ascii_letter_def line_terminator_def)
  have sp: "spec_pascal_case ''@scope/my-lib'' = ''MyLib''"
    by (simp add: spec_pascal_case_def spec_strip_scope_def is_separator_def is_ascii_letter_def
        toUpperCase_def)
  from C5_exposed_name [OF cs, of d1 "''/pkg''" _ "''@scope/my-lib''", OF _ _ _ _ named_getPackageJson _ pn]
    ds have "out_name (cfg_output d1) = Some (spec_pascal_case ''@scope/my-lib'')"
    by (simp add: is_single_file_def umd_options_def example_options_def)
  with cs ds sp show ?thesis by simp
qed

text \<open>
  The claim as stated fails on other names: in \<open>my--lib\<close> the second hyphen is taken as
  the character behind the first, so the letter that follows it stays in lower case; in
  \<open>@scope/sub/lib\<close> the code strips through the last slash, not the scope segment only.
\<close>

theorem C5_counterexample:
  "(\<exists>cs. createConfig (named_env ''my--lib'') example_fs umd_options = Inr cs \<and>
      map (\<lambda>d. out_name (cfg_output d)) cs = [Some ''My-lib'', None]) \<and>
   spec_pascal_case ''my--lib'' = ''My-Lib'' \<and>
   (\<exists>cs. createConfig (named_env ''@scope/sub/lib'') example_fs umd_options = Inr cs \<and>
      map (\<lambda>d. out_name (cfg_output d)) cs = [Some ''Lib'', None]) \<and>
   spec_pascal_case ''@scope/sub/lib'' = ''Sub/lib''"
proof -
  have 1: "toPascalCase (strip_scope ''my--lib'') = ''My-lib''"
    by (simp add: toPascalCase_def strip_scope_def upper_first_def line_terminator_def
      is_separator_def toUpperCase_def)
  have 2: "toPascalCase (strip_scope ''@scope/sub/lib'') = ''Lib''"
    by (simp add: toPascalCase_def strip_scope_def upper_first_def line_terminator_def
      is_separator_def toUpperCase_def)
  have 3: "spec_pascal_case ''my--lib'' = ''My-Lib''"
    by (simp add: spec_pascal_case_def spec_strip_scope_def is_separator_def is_ascii_letter_def
        toUpperCase_def)
  have 4: "spec_pascal_case ''@scope/sub/lib'' = ''Sub/lib''"
    by (simp add: spec_pascal_case_def spec_strip_scope_def is_separator_def is_ascii_letter_def
        toUpperCase_def)
  from umd_createConfig [of "''my--lib''"] 1
  have 5: "\<exists>cs. createConfig (named_env ''my--lib'') example_fs umd_options = Inr cs \<and>
      map (\<lambda>d. out_name (cfg_output d)) cs = [Some ''My-lib'', None]" by auto
  from umd_createConfig [of "''@scope/sub/lib''"] 2
  have 6: "\<exists>cs. createConfig (named_env ''@scope/sub/lib'') example_fs umd_options = Inr cs \<and>
      map (\<lambda>d. out_name (cfg_output d)) cs = [Some ''Lib'', None]" by auto
  from 3 4 5 6 show ?thesis by blast
qed

section \<open>Properties of update-readme.js\<close>

subsection \<open>The leftmost match and the first occurrence\<close>

lemma badge_match_at_iff:
  "badge_match_at pre s = Some n \<longleftrightarrow>
     (\<exists>u b. s = pre @ u @ CHR 0x29 # b \<and> u \<noteq> [] \<and> CHR 0x29 \<notin> set u \<and> n = length pre + length u + 1)"
proof
  assume "badge_match_at pre s = Some n"
  then obtain r where s: "s = pre @ r"
    and u: "takeWhile (\<lambda>c. c \<noteq> CHR 0x29) r \<noteq> []"
      "length (takeWhile (\<lambda>c. c \<noteq> CHR 0x29) r) < length r"
    and n: "n = length pre + length (takeWhile (\<lambda>c. c \<noteq> CHR 0x29) r) + 1"
    by (auto simp: badge_match_at_def startsWith_iff Let_def split: if_splits)
  let ?u = "takeWhile (\<lambda>c. c \<noteq> CHR 0x29) r"
  let ?d = "dropWhile (\<lambda>c. c \<noteq> CHR 0x29) r"
  from u(2) have "?d \<noteq> []" by (metis append_Nil2 takeWhile_dropWhile_id nat_neq_iff)
  then have "hd ?d = CHR 0x29" using hd_dropWhile [of "\<lambda>c. c \<noteq> CHR 0x29" r] by auto
  with \<open>?d \<noteq> []\<close> have "?d = CHR 0x29 # tl ?d" by (metis list.collapse)
  then have "r = ?u @ CHR 0x29 # tl ?d" by (metis takeWhile_dropWhile_id)
  moreover have "CHR 0x29 \<notin> set ?u" by (metis (full_types) set_takeWhileD)
  ultimately show "\<exists>u b. s = pre @ u @ CHR 0x29 # b \<and> u \<noteq> [] \<and> CHR 0x29 \<notin> set u \<and>
      n = length pre + length u + 1"
    using s u(1) n by blast
next
  assume "\<exists>u b. s = pre @ u @ CHR 0x29 # b \<and> u \<noteq> [] \<and> CHR 0x29 \<notin> set u \<and> n = length pre + length u + 1"
  then obtain u b where s: "s = pre @ u @ CHR 0x29 # b" and u: "u \<noteq> []" "CHR 0x29 \<notin> set u"
    and n: "n = length pre + length u + 1" by blast
  from u(2) have "takeWhile (\<lambda>c. c \<noteq> CHR 0x29) (u @ CHR 0x29 # b) = u"
    by (simp add: takeWhile_tail) (metis takeWhile_eq_all_conv)
  with s u n show "badge_match_at pre s = Some n"
    by (simp add: badge_match_at_def startsWith_def Let_def)
qed

lemma find_badge_Some:
  "find_badge pre s = Some (i, n) \<Longrightarrow>
     i \<le> length s \<and> badge_match_at pre (drop i s) = Some n \<and>
     (\<forall>j<i. badge_match_at pre (drop j s) = None)"
proof (induction s arbitrary: i)
  case Nil
  then show ?case by auto
next
  case (Cons c cs)
  show ?case
  proof (cases "badge_match_at pre (c # cs)")
    case (Some m)
    with Cons.prems show ?thesis by simp
  next
    case None
    with Cons.prems obtain i' where i: "i = Suc i'" and f: "find_badge pre cs = Some (i', n)"
      by auto
    from Cons.IH [OF f] None i show ?thesis
      by (auto simp: less_Suc_eq_0_disj)
  qed
qed

lemma find_badge_None:
  "find_badge pre s = None \<Longrightarrow> badge_match_at pre (drop j s) = None"
proof (induction s arbitrary: j)
  case Nil
  then show ?case by simp
next
  case (Cons c cs)
  from Cons.prems have 0: "badge_match_at pre (c # cs) = None" and r: "find_badge pre cs = None"
    by (auto split: option.splits)
  show ?case
  proof (cases j)
    case 0
    with \<open>badge_match_at pre (c # cs) = None\<close> show ?thesis by simp
  next
    case (Suc k)
    with Cons.IH [OF r] show ?thesis by simp
  qed
qed

lemma find_badge_first:
  assumes "badge_match_at pre (drop i s) = Some n" and "i \<le> length s"
    and "\<forall>j<i. badge_match_at pre (drop j s) = None"
  shows "find_badge pre s = Some (i, n)"
proof (cases "find_badge pre s")
  case None
  from find_badge_None [OF None, of i] assms(1) show ?thesis by simp
next
  case (Some p)
  obtain i' n' where p: "p = (i', n')" by (cases p)
  from find_badge_Some [OF Some [unfolded p]] have
    a: "badge_match_at pre (drop i' s) = Some n'" and b: "\<forall>j<i'. badge_match_at pre (drop j s) = None"
    by simp_all
  from a assms(3) have "\<not> i' < i" by auto
  moreover from assms(1) b have "\<not> i < i'" by auto
  ultimately have "i' = i" by simp
  with a assms(1) Some p show ?thesis by simp
qed

lemma indexOf_Some:
  "indexOf s pat = Some i \<Longrightarrow>
     i \<le> length s \<and> startsWith (drop i s) pat \<and> (\<forall>j<i. \<not> startsWith (drop j s) pat)"
proof (induction s arbitrary: i)
  case Nil
  then show ?case by (auto simp: startsWith_def split: if_splits)
next
  case (Cons c cs)
  show ?case
  proof (cases "startsWith (c # cs) pat")
    case True
    with Cons.prems show ?thesis by simp
  next
    case False
    with Cons.prems obtain i' where i: "i = Suc i'" and f: "indexOf cs pat = Some i'" by auto
    from Cons.IH [OF f] False i show ?thesis by (auto simp: less_Suc_eq_0_disj)
  qed
qed

lemma indexOf_None: "indexOf s pat = None \<Longrightarrow> \<not> startsWith (drop j s) pat"
proof (induction s arbitrary: j)
  case Nil
  then show ?case by (auto simp: startsWith_def split: if_splits)
next
  case (Cons c cs)
  from Cons.prems have 0: "\<not> startsWith (c # cs) pat" and r: "indexOf cs pat = None"
    by (auto split: if_splits)
  show ?case
  proof (cases j)
    case 0
    with \<open>\<not> startsWith (c # cs) pat\<close> show ?thesis by simp
  next
    case (Suc k)
    with Cons.IH [OF r] show ?thesis by simp
  qed
qed

lemma indexOf_first:
  assumes "startsWith (drop i s) pat" and "i \<le> length s" and "\<forall>j<i. \<not> startsWith (drop j s) pat"
  shows "indexOf s pat = Some i"
proof (cases "indexOf s pat")
  case None
  from indexOf_None [OF None, of i] assms(1) show ?thesis by simp
next
  case (Some i')
  from indexOf_Some [OF Some] have a: "startsWith (drop i' s) pat"
    and b: "\<forall>j<i'. \<not> startsWith (drop j s) pat" by simp_all
  from a assms(3) have "\<not> i' < i" by auto
  moreover from assms(1) b have "\<not> i < i'" by auto
  ultimately show ?thesis using Some by simp
qed

lemma get_substitution_plain:
  "CHR ''$'' \<notin> set t \<Longrightarrow> get_substitution m p f t = t"
  by (induction m p f t rule: get_substitution.induct) auto

lemma badge_decomposition:
  "(\<exists>n. badge_match_at pre (drop i s) = Some n) \<and> i \<le> length s \<longleftrightarrow>
     (\<exists>a u b. s = a @ pre @ u @ CHR 0x29 # b \<and> u \<noteq> [] \<and> CHR 0x29 \<notin> set u \<and> length a = i)"
proof
  assume "(\<exists>n. badge_match_at pre (drop i s) = Some n) \<and> i \<le> length s"
  then obtain u b where "drop i s = pre @ u @ CHR 0x29 # b" "u \<noteq> []" "CHR 0x29 \<notin> set u"
    and i: "i \<le> length s"
    by (auto simp: badge_match_at_iff)
  then have "s = take i s @ pre @ u @ CHR 0x29 # b" by (metis append_take_drop_id)
  with \<open>u \<noteq> []\<close> \<open>CHR 0x29 \<notin> set u\<close> i show
    "\<exists>a u b. s = a @ pre @ u @ CHR 0x29 # b \<and> u \<noteq> [] \<and> CHR 0x29 \<notin> set u \<and> length a = i"
    by (intro exI [of _ "take i s"] exI [of _ u] exI [of _ b]) simp
next
  assume "\<exists>a u b. s = a @ pre @ u @ CHR 0x29 # b \<and> u \<noteq> [] \<and> CHR 0x29 \<notin> set u \<and> length a = i"
  then obtain a u b where s: "s = a @ pre @ u @ CHR 0x29 # b" and u: "u \<noteq> []" "CHR 0x29 \<notin> set u"
    and a: "length a = i" by blast
  from s a have "drop i s = pre @ u @ CHR 0x29 # b" by simp
  with u have "badge_match_at pre (drop i s) = Some (length pre + length u + 1)"
    by (auto simp: badge_match_at_iff)
  moreover from s a have "i \<le> length s" by simp
  ultimately show "(\<exists>n. badge_match_at pre (drop i s) = Some n) \<and> i \<le> length s" by blast
qed

lemma find_badge_None_iff:
  "find_badge pre s = None \<longleftrightarrow>
     \<not> (\<exists>a u b. s = a @ pre @ u @ CHR 0x29 # b \<and> u \<noteq> [] \<and> CHR 0x29 \<notin> set u)"
proof
  assume n: "find_badge pre s = None"
  show "\<not> (\<exists>a u b. s = a @ pre @ u @ CHR 0x29 # b \<and> u \<noteq> [] \<and> CHR 0x29 \<notin> set u)"
  proof
    assume "\<exists>a u b. s = a @ pre @ u @ CHR 0x29 # b \<and> u \<noteq> [] \<and> CHR 0x29 \<notin> set u"
    then obtain a u b where "s = a @ pre @ u @ CHR 0x29 # b \<and> u \<noteq> [] \<and> CHR 0x29 \<notin> set u \<and> length a = length a"
      by blast
    then have "(\<exists>n. badge_match_at pre (drop (length a) s) = Some n) \<and> length a \<le> length s"
      using badge_decomposition [of pre "length a" s] by blast
    with find_badge_None [OF n, of "length a"] show False by simp
  qed
next
  assume d: "\<not> (\<exists>a u b. s = a @ pre @ u @ CHR 0x29 # b \<and> u \<noteq> [] \<and> CHR 0x29 \<notin> set u)"
  show "find_badge pre s = None"
  proof (cases "find_badge pre s")
    case None
    then show ?thesis .
  next
    case (Some p)
    obtain i n where "p = (i, n)" by (cases p)
    with find_badge_Some [of pre s i n] Some
    have "(\<exists>n. badge_match_at pre (drop i s) = Some n) \<and> i \<le> length s" by auto
    with badge_decomposition [of pre i s] d show ?thesis by blast
  qed
qed

lemma startsWith_decomposition:
  "startsWith (drop i s) pat \<and> i \<le> length s \<longleftrightarrow> (\<exists>a b. s = a @ pat @ b \<and> length a = i)"
proof
  assume "startsWith (drop i s) pat \<and> i \<le> length s"
  then obtain r where "drop i s = pat @ r" and i: "i \<le> length s" by (auto simp: startsWith_iff)
  then have "s = take i s @ pat @ r" by (metis append_take_drop_id)
  with i show "\<exists>a b. s = a @ pat @ b \<and> length a = i"
    by (intro exI [of _ "take i s"] exI [of _ r]) simp
next
  assume "\<exists>a b. s = a @ pat @ b \<and> length a = i"
  then show "startsWith (drop i s) pat \<and> i \<le> length s" by (auto simp: startsWith_iff)
qed

lemma indexOf_None_iff: "indexOf s pat = None \<longleftrightarrow> \<not> (\<exists>a b. s = a @ pat @ b)"
proof
  assume n: "indexOf s pat = None"
  show "\<not> (\<exists>a b. s = a @ pat @ b)"
  proof
    assume "\<exists>a b. s = a @ pat @ b"
    then obtain a b where "s = a @ pat @ b \<and> length a = length a" by blast
    then have "startsWith (drop (length a) s) pat"
      using startsWith_decomposition [of "length a" s pat] by blast
    with indexOf_None [OF n] show False by blast
  qed
next
  assume d: "\<not> (\<exists>a b. s = a @ pat @ b)"
  show "indexOf s pat = None"
  proof (cases "indexOf s pat")
    case None
    then show ?thesis .
  next
    case (Some i)
    from indexOf_Some [OF Some] startsWith_decomposition [of i s pat] d show ?thesis by blast
  qed
qed

subsection \<open>The characters of the size badge\<close>

lemma digit_char_in: "digit_char n \<in> set ''0123456789''"
  unfolding digit_char_def by (rule nth_mem) simp

lemma show_nat_chars: "c \<in> set (show_nat n) \<Longrightarrow> c \<in> set ''0123456789''"
proof (induction n rule: show_nat.induct)
  case (1 n)
  show ?case
  proof (cases "n < 10")
    case True
    with "1.prems" have "c = digit_char n" by (subst (asm) show_nat.simps) simp
    then show ?thesis using digit_char_in [of n] by simp
  next
    case False
    with "1.prems" have "c \<in> set (show_nat (n div 10)) \<or> c = digit_char n"
      by (subst (asm) show_nat.simps) auto
    with "1.IH" False digit_char_in [of n] show ?thesis by blast
  qed
qed

lemma sizeStr_chars:
  assumes "c \<in> set (sizeStr n)"
  shows "c \<in> set ''0123456789'' \<or> c = CHR ''.'' \<or> c = CHR ''k'' \<or> c = CHR ''B''"
proof -
  let ?m = "(200 * n + 1024) div 2048"
  from assms have "c \<in> set (show_nat (?m div 100)) \<or> c = CHR ''.'' \<or>
      c = digit_char (?m div 10) \<or> c = digit_char ?m \<or> c = CHR ''k'' \<or> c = CHR ''B''"
    by (auto simp: sizeStr_def toFixed2_def Let_def)
  with show_nat_chars [of c "?m div 100"] digit_char_in [of "?m div 10"] digit_char_in [of ?m]
  show ?thesis by blast
qed

lemma sizeBadge_chars:
  assumes "c = CHR ''$'' \<or> c = CHR ''!'' \<or> c = CHR 0x29 \<or> c = CHR 0x0A"
  shows "c \<notin> set (sizeStr n)"
proof
  assume "c \<in> set (sizeStr n)"
  from sizeStr_chars [OF this] assms show False by auto
qed

lemma sizeBadge_plain: "CHR ''$'' \<notin> set (sizeBadge (sizeStr n))"
  using sizeBadge_chars [of "CHR ''$''" n] by (simp add: sizeBadge_def size_prefix_def)

subsection \<open>The size step\<close>

lemma update_size_replace:
  assumes "find_badge size_prefix c = Some (i, m)" and "CHR ''$'' \<notin> set sb"
  shows "\<exists>a u b. c = a @ size_prefix @ u @ CHR 0x29 # b \<and> u \<noteq> [] \<and> CHR 0x29 \<notin> set u \<and>
     length a = i \<and> update_size vb sb c = a @ sb @ b"
proof -
  from find_badge_Some [OF assms(1)] have i: "i \<le> length c"
    and m: "badge_match_at size_prefix (drop i c) = Some m" by simp_all
  from m obtain u b where d: "drop i c = size_prefix @ u @ CHR 0x29 # b"
    and u: "u \<noteq> []" "CHR 0x29 \<notin> set u" and ml: "m = length size_prefix + length u + 1"
    by (auto simp: badge_match_at_iff)
  from d have c: "c = take i c @ size_prefix @ u @ CHR 0x29 # b" by (metis append_take_drop_id)
  from d ml have "drop m (drop i c) = b" by simp
  then have "drop (i + m) c = b" by (simp add: add.commute)
  with assms have "update_size vb sb c = take i c @ sb @ b"
    by (simp add: update_size_def replace_badge_def get_substitution_plain)
  with c u i show ?thesis
    by (intro exI [of _ "take i c"] exI [of _ u] exI [of _ b]) simp
qed

lemma update_size_insert:
  assumes "find_badge size_prefix c = None" and "indexOf c vb = Some i"
  shows "\<exists>a b. c = a @ vb @ b \<and> length a = i \<and> update_size vb sb c = a @ vb @ '' '' @ sb @ b"
proof -
  from indexOf_Some [OF assms(2)] have i: "i \<le> length c" and s: "startsWith (drop i c) vb"
    by simp_all
  from s obtain b where d: "drop i c = vb @ b" by (auto simp: startsWith_iff)
  then have c: "c = take i c @ vb @ b" by (metis append_take_drop_id)
  from d have "take (length vb) (drop i c) = vb" "drop (length vb) (drop i c) = b" by simp_all
  then have "take (i + length vb) c = take i c @ vb" "drop (i + length vb) c = b"
    by (simp_all add: take_add add.commute)
  with assms have "update_size vb sb c = take i c @ vb @ '' '' @ sb @ b"
    by (simp add: update_size_def)
  with c i show ?thesis by (intro exI [of _ "take i c"] exI [of _ b]) simp
qed

text \<open>
  Claim C7. The size step, on any content: when the size pattern (the fixed prefix, one
  or more characters other than a closing parenthesis, a closing parenthesis) matches, the
  leftmost match is replaced by the size badge, in place; otherwise, when the version
  badge text occurs, a space and the size badge are inserted behind its first occurrence;
  otherwise the content is unchanged.
\<close>

theorem C7_size_step:
  "(if \<exists>a u b. c = a @ size_prefix @ u @ CHR 0x29 # b \<and> u \<noteq> [] \<and> CHR 0x29 \<notin> set u
    then \<exists>a u b. c = a @ size_prefix @ u @ CHR 0x29 # b \<and> u \<noteq> [] \<and> CHR 0x29 \<notin> set u \<and>
           (\<forall>a' u' b'. c = a' @ size_prefix @ u' @ CHR 0x29 # b' \<and> u' \<noteq> [] \<and> CHR 0x29 \<notin> set u'
              \<longrightarrow> length a \<le> length a') \<and>
           update_size vb (sizeBadge (sizeStr n)) c = a @ sizeBadge (sizeStr n) @ b
    else if \<exists>a b. c = a @ vb @ b
    then \<exists>a b. c = a @ vb @ b \<and> (\<forall>a' b'. c = a' @ vb @ b' \<longrightarrow> length a \<le> length a') \<and>
           update_size vb (sizeBadge (sizeStr n)) c = a @ vb @ '' '' @ sizeBadge (sizeStr n) @ b
    else update_size vb (sizeBadge (sizeStr n)) c = c)"
proof (cases "find_badge size_prefix c")
  case None
  then have no: "\<not> (\<exists>a u b. c = a @ size_prefix @ u @ CHR 0x29 # b \<and> u \<noteq> [] \<and> CHR 0x29 \<notin> set u)"
    by (simp add: find_badge_None_iff)
  show ?thesis
  proof (cases "indexOf c vb")
    case n: None
    then have nv: "\<not> (\<exists>a b. c = a @ vb @ b)" by (simp add: indexOf_None_iff)
    from None n have "update_size vb (sizeBadge (sizeStr n)) c = c" by (simp add: update_size_def)
    then show ?thesis by (simp only: no nv if_False)
  next
    case (Some i)
    from update_size_insert [OF None Some] obtain a b where ab: "c = a @ vb @ b" "length a = i"
      "update_size vb (sizeBadge (sizeStr n)) c = a @ vb @ '' '' @ sizeBadge (sizeStr n) @ b"
      by blast
    have "length a \<le> length a'" if "c = a' @ vb @ b'" for a' b'
    proof (rule ccontr)
      assume "\<not> length a \<le> length a'"
      with ab(2) have "length a' < i" by simp
      moreover from that have "startsWith (drop (length a') c) vb"
        using startsWith_decomposition [of "length a'" c vb] by blast
      ultimately show False using indexOf_Some [OF Some] by blast
    qed
    with ab have "\<exists>a b. c = a @ vb @ b \<and> (\<forall>a' b'. c = a' @ vb @ b' \<longrightarrow> length a \<le> length a') \<and>
           update_size vb (sizeBadge (sizeStr n)) c = a @ vb @ '' '' @ sizeBadge (sizeStr n) @ b"
      by blast
    moreover from ab have "\<exists>a b. c = a @ vb @ b" by blast
    ultimately show ?thesis by (simp only: no if_False if_True)
  qed
next
  case (Some p)
  obtain i m where p: "p = (i, m)" by (cases p)
  from update_size_replace [OF Some [unfolded p] sizeBadge_plain, of vb n] obtain a u b where
    ab: "c = a @ size_prefix @ u @ CHR 0x29 # b" "u \<noteq> []" "CHR 0x29 \<notin> set u" "length a = i"
    "update_size vb (sizeBadge (sizeStr n)) c = a @ sizeBadge (sizeStr n) @ b" by blast
  have "length a \<le> length a'"
    if "c = a' @ size_prefix @ u' @ CHR 0x29 # b' \<and> u' \<noteq> [] \<and> CHR 0x29 \<notin> set u'" for a' u' b'
  proof (rule ccontr)
    assume "\<not> length a \<le> length a'"
    with ab(4) have "length a' < i" by simp
    moreover from that have "\<exists>k. badge_match_at size_prefix (drop (length a') c) = Some k"
      using badge_decomposition [of size_prefix "length a'" c] by blast
    ultimately show False using find_badge_Some [OF Some [unfolded p]] by auto
  qed
  with ab have "\<exists>a u b. c = a @ size_prefix @ u @ CHR 0x29 # b \<and> u \<noteq> [] \<and> CHR 0x29 \<notin> set u \<and>
           (\<forall>a' u' b'. c = a' @ size_prefix @ u' @ CHR 0x29 # b' \<and> u' \<noteq> [] \<and> CHR 0x29 \<notin> set u'
              \<longrightarrow> length a \<le> length a') \<and>
           update_size vb (sizeBadge (sizeStr n)) c = a @ sizeBadge (sizeStr n) @ b"
    by blast
  moreover from ab have "\<exists>a u b. c = a @ size_prefix @ u @ CHR 0x29 # b \<and> u \<noteq> [] \<and> CHR 0x29 \<notin> set u"
    by blast
  ultimately show ?thesis by (simp only: if_True)
qed

subsection \<open>Missing files and caught exceptions\<close>

text \<open>
  Claim C8. When the README or the manifest does not exist, \<open>writeBundle\<close> returns with
  the file system and the error stream as they were: nothing is written and no README is
  created.
\<close>

theorem C8_missing_file:
  assumes "\<not> existsSync (w_files w) (resolve e pkgDir ''README.md'') \<or>
           \<not> existsSync (w_files w) (resolve e pkgDir ''package.json'')"
  shows "writeBundle e pkgDir bundle w = Inr w"
  using assms by (auto simp: writeBundle_def Let_def)

text \<open>
  The example package has a manifest and no README.
\<close>

theorem C8_missing_file_witness:
  "writeBundle example_env ''/pkg'' [Chunk ''x''] \<lparr> w_files = example_fs, w_stderr = [] \<rparr> =
     Inr \<lparr> w_files = example_fs, w_stderr = [] \<rparr> \<and>
   example_fs ''/pkg/README.md'' = None"
  using C8_missing_file [of "\<lparr> w_files = example_fs, w_stderr = [] \<rparr>" example_env "''/pkg''" "[Chunk ''x'']"]
  by (simp add: example_fs_def existsSync_def example_resolve)

text \<open>
  Claim C9. When both files exist and the work inside the \<open>try\<close> block raises, the
  exception is appended to the error stream, the file system is as it was, and
  \<open>writeBundle\<close> returns normally.
\<close>

theorem C9_caught_and_logged:
  assumes "existsSync (w_files w) (resolve e pkgDir ''README.md'')"
    and "existsSync (w_files w) (resolve e pkgDir ''package.json'')"
    and "update_badges e (w_files w) pkgDir bundle = Inl err"
  shows "writeBundle e pkgDir bundle w = Inr (w \<lparr> w_stderr := w_stderr w @ [err] \<rparr>)"
  using assms by (simp add: writeBundle_def Let_def)

lemma broken_resolve: "resolve broken_env a b = a @ ''/'' @ b"
  by (simp add: broken_env_def example_env_def join_path_def)

lemma broken_parse: "json_parse broken_env t = None"
  by (simp add: broken_env_def)

lemma example_parse: "json_parse example_env ''manifest text'' = Some example_manifest"
  by (simp add: example_env_def)

text \<open>
  A manifest that is not JSON, and a README that cannot be written.
\<close>

theorem C9_caught_and_logged_witness:
  "writeBundle broken_env ''/pkg'' [Chunk ''x''] \<lparr> w_files = readme_fs ''# T'', w_stderr = [] \<rparr> =
     Inr \<lparr> w_files = readme_fs ''# T'', w_stderr = [SyntaxError] \<rparr> \<and>
   writeBundle example_env ''/pkg'' [Chunk ''x''] \<lparr> w_files = readonly_fs, w_stderr = [] \<rparr> =
     Inr \<lparr> w_files = readonly_fs, w_stderr = [IOError] \<rparr>"
proof -
  have 1: "update_badges broken_env (readme_fs ''# T'') ''/pkg'' [Chunk ''x''] = Inl SyntaxError"
    by (simp add: update_badges_def broken_resolve readme_fs_def example_fs_def readFileSync_def
        broken_parse Let_def)
  have 2: "update_badges example_env readonly_fs ''/pkg'' [Chunk ''x''] = Inl IOError"
    by (simp add: update_badges_def example_resolve readonly_fs_def example_fs_def
        readFileSync_def writeFileSync_def example_parse example_manifest_def Let_def)
  from C9_caught_and_logged [of "\<lparr> w_files = readme_fs ''# T'', w_stderr = [] \<rparr>" broken_env "''/pkg''",
      OF _ _ _] 1
  have a: "writeBundle broken_env ''/pkg'' [Chunk ''x''] \<lparr> w_files = readme_fs ''# T'', w_stderr = [] \<rparr> =
     Inr \<lparr> w_files = readme_fs ''# T'', w_stderr = [SyntaxError] \<rparr>"
    by (simp add: broken_resolve readme_fs_def example_fs_def existsSync_def)
  from C9_caught_and_logged [of "\<lparr> w_files = readonly_fs, w_stderr = [] \<rparr>" example_env "''/pkg''"] 2
  have b: "writeBundle example_env ''/pkg'' [Chunk ''x''] \<lparr> w_files = readonly_fs, w_stderr = [] \<rparr> =
     Inr \<lparr> w_files = readonly_fs, w_stderr = [IOError] \<rparr>"
    by (simp add: example_resolve readonly_fs_def example_fs_def existsSync_def)
  from a b show ?thesis by simp
qed

subsection \<open>Occurrences in a concatenation\<close>

lemma startsWith_sublist: "startsWith (drop i s) pat \<Longrightarrow> sublist pat s"
proof -
  assume "startsWith (drop i s) pat"
  then obtain r where "drop i s = pat @ r" by (auto simp: startsWith_iff)
  then have "s = take i s @ pat @ r" by (metis append_take_drop_id)
  then show ?thesis unfolding sublist_def by blast
qed

lemma sublist_startsWith: "sublist pat s \<Longrightarrow> \<exists>i\<le>length s. startsWith (drop i s) pat"
proof -
  assume "sublist pat s"
  then obtain a b where "s = a @ pat @ b" unfolding sublist_def by blast
  then have "startsWith (drop (length a) s) pat \<and> length a \<le> length s"
    by (simp add: startsWith_iff)
  then show ?thesis by blast
qed

lemma startsWith_nth:
  assumes "startsWith (drop i s) pat" and "k < length pat"
  shows "i + k < length s \<and> s ! (i + k) = pat ! k"
proof -
  from assms(1) obtain r where d: "drop i s = pat @ r" by (auto simp: startsWith_iff)
  with assms(2) have "k < length (drop i s)" by simp
  then have l: "i + k < length s" by simp
  then have "s ! (i + k) = drop i s ! k" by simp
  with d assms(2) l show ?thesis by (simp add: nth_append)
qed

lemma startsWith_prefix:
  "startsWith s (p @ q) \<Longrightarrow> startsWith s p"
  by (auto simp: startsWith_iff)

lemma startsWith_left:
  assumes "startsWith (drop i (X @ Y)) pat" and "i < length X"
  shows "sublist pat X \<or> last X \<in> set pat"
proof -
  from assms(1) obtain r where "drop i (X @ Y) = pat @ r" by (auto simp: startsWith_iff)
  with assms(2) have e: "drop i X @ Y = pat @ r" by simp
  from assms(2) have ne: "drop i X \<noteq> []" by simp
  from e obtain us where "(drop i X = pat @ us \<and> us @ Y = r) \<or> (drop i X @ us = pat \<and> Y = us @ r)"
    by (auto simp: append_eq_append_conv2)
  then show ?thesis
  proof
    assume "drop i X = pat @ us \<and> us @ Y = r"
    then have "X = take i X @ pat @ us" by (metis append_take_drop_id)
    then show ?thesis unfolding sublist_def by blast
  next
    assume a: "drop i X @ us = pat \<and> Y = us @ r"
    from assms(2) have "last (drop i X) = last X" by simp
    moreover from ne have "last (drop i X) \<in> set (drop i X)" by (rule last_in_set)
    ultimately have "last X \<in> set (drop i X)" by simp
    with a show ?thesis by auto
  qed
qed

lemma startsWith_right:
  assumes "startsWith (drop i (X @ Y)) pat" and "length X \<le> i"
  shows "startsWith (drop (i - length X) Y) pat"
  using assms by simp

text \<open>Where an occurrence of a pattern can start in a text framed by clean parts.\<close>

lemma occurrence_in_frame:
  assumes occ: "startsWith (drop i (A @ Z @ B)) pat"
    and pat: "pat \<noteq> []" "CHR 0x0A \<notin> set pat"
    and A: "A = [] \<or> last A = CHR 0x0A" "\<not> sublist pat A"
    and B: "\<not> sublist pat B"
  shows "length A \<le> i \<and> i < length A + length Z"
proof -
  have 1: "length A \<le> i"
  proof (rule ccontr)
    assume "\<not> length A \<le> i"
    then have i: "i < length A" by simp
    from startsWith_left [OF occ i] A(2) have "last A \<in> set pat" by simp
    moreover from i A(1) have "last A = CHR 0x0A" by auto
    ultimately show False using pat(2) by simp
  qed
  have 2: "i < length A + length Z"
  proof (rule ccontr)
    assume "\<not> i < length A + length Z"
    then have "length (A @ Z) \<le> i" by simp
    with occ have "startsWith (drop (i - length (A @ Z)) B) pat"
      using startsWith_right [of i "A @ Z" B pat] by simp
    from startsWith_sublist [OF this] B show False by simp
  qed
  from 1 2 show ?thesis ..
qed

lemma marker_first:
  assumes "s ! k = c" and "k < length s" and "c \<notin> set (tl s)"
  shows "k = 0"
proof (rule ccontr)
  assume "k \<noteq> 0"
  then obtain j where k: "k = Suc j" by (cases k) auto
  with assms(2) have "s \<noteq> []" by auto
  then have "s = hd s # tl s" by simp
  then have "s ! k = tl s ! j" using k by (metis nth_Cons_Suc)
  moreover from assms(2) k have "j < length (tl s)" by simp
  ultimately have "s ! k \<in> set (tl s)" by simp
  with assms(1,3) show False by simp
qed

lemma marker_positions:
  assumes "(X @ sep # Y) ! k = c" and "k < length X + 1 + length Y"
    and "c \<notin> set (tl X)" and "c \<notin> set (tl Y)" and "c \<noteq> sep"
  shows "k = 0 \<or> k = length X + 1"
proof (cases "k < length X")
  case True
  with assms(1) have "X ! k = c" by (simp add: nth_append)
  from marker_first [OF this True assms(3)] show ?thesis by simp
next
  case False
  show ?thesis
  proof (cases "k = length X")
    case True
    with assms(1,5) show ?thesis by (simp add: nth_append)
  next
    case ne: False
    with False have g: "length X + 1 \<le> k" by simp
    then have "(X @ sep # Y) ! k = Y ! (k - length X - 1)"
      by (simp add: nth_append nth_Cons')
    with assms(1) have "Y ! (k - length X - 1) = c" by simp
    moreover from g assms(2) have "k - length X - 1 < length Y" by simp
    ultimately have "k - length X - 1 = 0" using assms(4) by (rule marker_first)
    with g show ?thesis by simp
  qed
qed

subsection \<open>Lines\<close>

lemma sublist_trans': "sublist a b \<Longrightarrow> sublist b c \<Longrightarrow> sublist a c"
proof -
  assume "sublist a b" and "sublist b c"
  then obtain p s p' s' where "b = p @ a @ s" "c = p' @ b @ s'" unfolding sublist_def by blast
  then have "c = (p' @ p) @ a @ (s @ s')" by simp
  then show ?thesis unfolding sublist_def by blast
qed

lemma cons_first_split:
  "ls \<noteq> [] \<Longrightarrow> cons_first c ls = (c # hd ls) # tl ls"
  by (cases ls) simp_all

lemma split_lines_nonempty: "split_lines s \<noteq> []"
  by (induction s rule: split_lines.induct) (auto simp: cons_first_split)

lemma split_lines_parts:
  "prefix (hd (split_lines s)) s \<and> (\<forall>x\<in>set (tl (split_lines s)). sublist x s)"
proof (induction s rule: split_lines.induct)
  case 1
  then show ?case by simp
next
  case (2 c)
  then show ?case by simp
next
  case (3 c d cs)
  show ?case
  proof (cases "c = CHR 0x0A")
    case True
    have "set (split_lines (d # cs)) = insert (hd (split_lines (d # cs))) (set (tl (split_lines (d # cs))))"
      using split_lines_nonempty [of "d # cs"] by (metis list.collapse list.simps(15))
    with True "3.IH"(1) show ?thesis
      by (auto simp: sublist_Cons_right)
  next
    case nl: False
    show ?thesis
    proof (cases "c = CHR 0x0D \<and> d = CHR 0x0A")
      case True
      have "set (split_lines cs) = insert (hd (split_lines cs)) (set (tl (split_lines cs)))"
        using split_lines_nonempty [of cs] by (metis list.collapse list.simps(15))
      with True nl "3.IH"(2) show ?thesis
        by (auto simp: sublist_Cons_right)
    next
      case False
      with nl "3.IH"(3) split_lines_nonempty [of "d # cs"] show ?thesis
        by (auto simp: cons_first_split sublist_Cons_right)
    qed
  qed
qed

lemma split_lines_sublist: "l \<in> set (split_lines s) \<Longrightarrow> sublist l s"
proof -
  assume "l \<in> set (split_lines s)"
  moreover have "set (split_lines s) = insert (hd (split_lines s)) (set (tl (split_lines s)))"
    using split_lines_nonempty [of s] by (metis list.collapse list.simps(15))
  ultimately show ?thesis using split_lines_parts [of s] by auto
qed

lemma sublist_newline:
  assumes "CHR 0x0A \<notin> set pat" and "sublist pat (X @ CHR 0x0A # Y)"
  shows "sublist pat X \<or> sublist pat Y"
proof -
  from assms(2) consider "sublist pat X" | "sublist pat (CHR 0x0A # Y)"
    | xs1 xs2 where "pat = xs1 @ xs2" "suffix xs1 X" "prefix xs2 (CHR 0x0A # Y)"
    by (auto simp: sublist_append)
  then show ?thesis
  proof cases
    case 1
    then show ?thesis ..
  next
    case 2
    then have "prefix pat (CHR 0x0A # Y) \<or> sublist pat Y" by (simp add: sublist_Cons_right)
    then show ?thesis
    proof
      assume "prefix pat (CHR 0x0A # Y)"
      with assms(1) have "pat = []" by (cases pat) auto
      then show ?thesis by simp
    next
      assume "sublist pat Y"
      then show ?thesis ..
    qed
  next
    case 3
    from 3(1) assms(1) have "CHR 0x0A \<notin> set xs2" by simp
    with 3(3) have "xs2 = []" by (cases xs2) auto
    with 3(1,2) show ?thesis by auto
  qed
qed

lemma sublist_join_lines:
  assumes "CHR 0x0A \<notin> set pat" and "pat \<noteq> []"
  shows "sublist pat (join_lines ls) \<Longrightarrow> \<exists>l\<in>set ls. sublist pat l"
proof (induction ls rule: join_lines.induct)
  case 1
  with assms(2) show ?case by simp
next
  case (2 l)
  then show ?case by simp
next
  case (3 l v va)
  from "3.prems" have "sublist pat (l @ CHR 0x0A # join_lines (v # va))" by simp
  from sublist_newline [OF assms(1) this] "3.IH" show ?case by auto
qed

lemma join_lines_append:
  "xs \<noteq> [] \<Longrightarrow> ys \<noteq> [] \<Longrightarrow> join_lines (xs @ ys) = join_lines xs @ CHR 0x0A # join_lines ys"
proof (induction xs rule: join_lines.induct)
  case 1
  then show ?case by simp
next
  case (2 l)
  then show ?case by (cases ys) simp_all
next
  case (3 l v va)
  then show ?case by simp
qed

lemma findIndex_less: "findIndex p xs = Some t \<Longrightarrow> t < length xs"
  by (induction xs arbitrary: t) (auto split: if_splits)

subsection \<open>The version step on a README without the version prefix\<close>

lemma find_badge_None_if_absent:
  "\<not> sublist pre s \<Longrightarrow> find_badge pre s = None"
proof (rule ccontr)
  assume a: "\<not> sublist pre s" and "find_badge pre s \<noteq> None"
  then obtain i n where "find_badge pre s = Some (i, n)" by auto
  from find_badge_Some [OF this] have "badge_match_at pre (drop i s) = Some n" by simp
  then have "startsWith (drop i s) pre" by (auto simp: badge_match_at_def split: if_splits)
  from startsWith_sublist [OF this] a show False by simp
qed

lemma clean_lines:
  assumes "pat \<noteq> []" and "CHR 0x0A \<notin> set pat" and "\<not> sublist pat R"
    and "set ls \<subseteq> set (split_lines R)"
  shows "\<not> sublist pat (join_lines ls)"
proof
  assume "sublist pat (join_lines ls)"
  from sublist_join_lines [OF assms(2,1) this] obtain l where "l \<in> set ls" "sublist pat l" by blast
  with assms(4) have "sublist l R" by (auto intro: split_lines_sublist)
  with \<open>sublist pat l\<close> assms(3) show False by (blast intro: sublist_trans')
qed

lemma not_sublist_newline_cons:
  assumes "pat \<noteq> []" and "CHR 0x0A \<notin> set pat" and "\<not> sublist pat Y"
  shows "\<not> sublist pat (CHR 0x0A # Y)"
proof
  assume "sublist pat (CHR 0x0A # Y)"
  then have "sublist pat ([] @ CHR 0x0A # Y)" by simp
  from sublist_newline [OF assms(2) this] assms(1,3) show False by simp
qed

lemma update_version_insert:
  assumes "find_badge version_prefix R = None"
  shows "\<exists>A B. update_version vb R = A @ vb @ B \<and> (A = [] \<or> last A = CHR 0x0A) \<and>
     (\<forall>pat. pat \<noteq> [] \<and> CHR 0x0A \<notin> set pat \<and> \<not> sublist pat R \<longrightarrow>
        \<not> sublist pat A \<and> \<not> sublist pat B)"
proof (cases "findIndex (\<lambda>line. startsWith line ''# '') (split_lines R)")
  case None
  let ?B = "CHR 0x0A # CHR 0x0A # join_lines (split_lines R)"
  from None assms split_lines_nonempty [of R] have "update_version vb R = [] @ vb @ ?B"
    by (cases "split_lines R") (simp_all add: update_version_def)
  moreover have "\<not> sublist pat ?B" if "pat \<noteq> []" "CHR 0x0A \<notin> set pat" "\<not> sublist pat R" for pat
    using that clean_lines [OF that, of "split_lines R"]
    by (intro not_sublist_newline_cons) simp_all
  ultimately show ?thesis using assms by (intro exI [of _ "[]"] exI [of _ ?B]) simp
next
  case (Some t)
  let ?ls = "split_lines R"
  let ?J = "join_lines (take (t + 1) ?ls)"
  let ?A = "?J @ [CHR 0x0A, CHR 0x0A]"
  let ?B = "if drop (t + 1) ?ls = [] then [] else CHR 0x0A # join_lines (drop (t + 1) ?ls)"
  from findIndex_less [OF Some] have t: "t < length ?ls" .
  then have ne: "take (t + 1) ?ls \<noteq> []" by (cases ?ls) auto
  have "join_lines (take (t + 1) ?ls @ [[CHR 0x0A] @ vb] @ drop (t + 1) ?ls) = ?A @ vb @ ?B"
  proof (cases "drop (t + 1) ?ls = []")
    case True
    with join_lines_append [OF ne, of "[[CHR 0x0A] @ vb]"] show ?thesis by simp
  next
    case False
    from join_lines_append [OF ne, of "[[CHR 0x0A] @ vb] @ drop (t + 1) ?ls"]
      join_lines_append [OF _ False, of "[[CHR 0x0A] @ vb]"] False
    show ?thesis by simp
  qed
  with Some assms have u: "update_version vb R = ?A @ vb @ ?B"
    by (simp add: update_version_def Let_def)
  have "\<not> sublist pat ?A \<and> \<not> sublist pat ?B"
    if p: "pat \<noteq> []" "CHR 0x0A \<notin> set pat" "\<not> sublist pat R" for pat
  proof
    have j: "\<not> sublist pat ?J"
      using clean_lines [OF p, of "take (t + 1) ?ls"] by (simp add: set_take_subset)
    show "\<not> sublist pat ?A"
    proof
      assume "sublist pat ?A"
      then have "sublist pat (?J @ CHR 0x0A # [CHR 0x0A])" by simp
      from sublist_newline [OF p(2) this] j have "sublist pat [CHR 0x0A]" by simp
      then have "sublist pat ([] @ CHR 0x0A # [])" by simp
      from sublist_newline [OF p(2) this] p(1) show False by simp
    qed
    have "\<not> sublist pat (join_lines (drop (t + 1) ?ls))"
      using clean_lines [OF p, of "drop (t + 1) ?ls"] by (simp add: set_drop_subset)
    from not_sublist_newline_cons [OF p(1,2) this] p(1) show "\<not> sublist pat ?B" by simp
  qed
  with u show ?thesis by (intro exI [of _ ?A] exI [of _ ?B]) simp
qed

subsection \<open>Where the prefixes occur after a run\<close>

lemma version_prefix_facts:
  "version_prefix \<noteq> []" "CHR 0x0A \<notin> set version_prefix" "version_prefix ! 0 = CHR ''!''"
  "version_prefix ! 2 = CHR ''v''" "2 < length version_prefix" "CHR ''!'' \<notin> set (tl version_prefix)"
  "CHR ''$'' \<notin> set version_prefix" "CHR 0x29 \<notin> set version_prefix"
  by (simp_all add: version_prefix_def)

lemma size_prefix_facts:
  "size_prefix \<noteq> []" "CHR 0x0A \<notin> set size_prefix" "size_prefix ! 0 = CHR ''!''"
  "size_prefix ! 2 = CHR ''m''" "2 < length size_prefix" "CHR ''!'' \<notin> set (tl size_prefix)"
  "CHR ''$'' \<notin> set size_prefix" "CHR 0x29 \<notin> set size_prefix"
  by (simp_all add: size_prefix_def)

lemma versionBadge_facts:
  assumes "badge_safe v"
  shows "CHR ''!'' \<notin> set (tl (versionBadge v))" "CHR ''$'' \<notin> set (versionBadge v)"
    "versionBadge v ! 2 = CHR ''v''" "2 < length (versionBadge v)"
  using assms version_prefix_facts
  by (simp_all add: versionBadge_def badge_safe_def nth_append)

lemma sizeBadge_facts:
  "CHR ''!'' \<notin> set (tl (sizeBadge (sizeStr n)))" "sizeBadge (sizeStr n) ! 2 = CHR ''m''"
  "2 < length (sizeBadge (sizeStr n))"
  using size_prefix_facts sizeBadge_chars [of "CHR ''!''" n]
  by (simp_all add: sizeBadge_def nth_append)

lemma versionBadge_match:
  assumes "badge_safe v"
  shows "badge_match_at version_prefix (versionBadge v @ rest) = Some (length (versionBadge v))"
proof -
  have "versionBadge v @ rest = version_prefix @ (v @ ''-blue'') @ CHR 0x29 # rest"
    by (simp add: versionBadge_def)
  moreover have "v @ ''-blue'' \<noteq> []" by simp
  moreover from assms have "CHR 0x29 \<notin> set (v @ ''-blue'')" by (simp add: badge_safe_def)
  moreover have "length (versionBadge v) = length version_prefix + length (v @ ''-blue'') + 1"
    by (simp add: versionBadge_def)
  ultimately show ?thesis unfolding badge_match_at_iff by blast
qed

lemma sizeBadge_match:
  "badge_match_at size_prefix (sizeBadge (sizeStr n) @ rest) = Some (length (sizeBadge (sizeStr n)))"
proof -
  have "sizeBadge (sizeStr n) @ rest = size_prefix @ (sizeStr n @ ''-success'') @ CHR 0x29 # rest"
    by (simp add: sizeBadge_def)
  moreover have "sizeStr n @ ''-success'' \<noteq> []" by simp
  moreover have "CHR 0x29 \<notin> set (sizeStr n @ ''-success'')"
    using sizeBadge_chars [of "CHR 0x29" n] by simp
  moreover have "length (sizeBadge (sizeStr n)) = length size_prefix + length (sizeStr n @ ''-success'') + 1"
    by (simp add: sizeBadge_def)
  ultimately show ?thesis unfolding badge_match_at_iff by blast
qed

lemma badge_match_startsWith: "badge_match_at pre s = Some n \<Longrightarrow> startsWith s pre"
  by (auto simp: badge_match_at_def split: if_splits)

lemma frame_marker:
  assumes occ: "startsWith (drop i (A @ Z @ B)) pat"
    and p: "pat \<noteq> []" "CHR 0x0A \<notin> set pat" "\<not> sublist pat A" "\<not> sublist pat B"
    and A: "A = [] \<or> last A = CHR 0x0A"
  shows "length A \<le> i \<and> i - length A < length Z \<and> Z ! (i - length A) = pat ! 0"
proof -
  from occurrence_in_frame [OF occ p(1,2) A p(3,4)]
  have r: "length A \<le> i" "i < length A + length Z" by simp_all
  then have k: "i - length A < length Z" by linarith
  from p(1) have "0 < length pat" by simp
  from startsWith_nth [OF occ this] have "(A @ Z @ B) ! i = pat ! 0" by simp
  moreover from r(1) have "(A @ Z @ B) ! i = (Z @ B) ! (i - length A)"
    by (simp add: nth_append)
  moreover from k have "(Z @ B) ! (i - length A) = Z ! (i - length A)"
    by (simp add: nth_append)
  ultimately show ?thesis using r(1) k by simp
qed

lemma third_char:
  assumes "startsWith (drop (length X) (X @ Y)) pat" and "2 < length pat" and "2 < length Y"
  shows "pat ! 2 = Y ! 2"
proof -
  from startsWith_nth [OF assms(1,2)] have "(X @ Y) ! (length X + 2) = pat ! 2" by simp
  moreover have "(X @ Y) ! (length X + 2) = Y ! 2" by (rule nth_append_length_plus)
  ultimately show ?thesis by simp
qed

lemma occurrences_after_version_step:
  assumes safe: "badge_safe v"
    and A: "A = [] \<or> last A = CHR 0x0A" "\<not> sublist version_prefix A" "\<not> sublist size_prefix A"
    and B: "\<not> sublist version_prefix B" "\<not> sublist size_prefix B"
  shows "startsWith (drop i (A @ versionBadge v @ B)) version_prefix \<Longrightarrow> i = length A"
    and "\<not> startsWith (drop i (A @ versionBadge v @ B)) size_prefix"
proof -
  let ?vb = "versionBadge v"
  have pos: "i = length A"
    if occ: "startsWith (drop i (A @ ?vb @ B)) pat" and p: "pat \<noteq> []" "CHR 0x0A \<notin> set pat"
      "\<not> sublist pat A" "\<not> sublist pat B" and m: "pat ! 0 = CHR ''!''" for pat
  proof -
    from frame_marker [OF occ p A(1)] m
    have r: "length A \<le> i" and k: "i - length A < length ?vb"
      and z: "?vb ! (i - length A) = CHR ''!''" by simp_all
    from marker_first [OF z k versionBadge_facts(1) [OF safe]] r show ?thesis by simp
  qed
  show "startsWith (drop i (A @ ?vb @ B)) version_prefix \<Longrightarrow> i = length A"
    by (rule pos [OF _ version_prefix_facts(1,2) A(2) B(1) version_prefix_facts(3)])
  show "\<not> startsWith (drop i (A @ ?vb @ B)) size_prefix"
  proof
    assume occ: "startsWith (drop i (A @ ?vb @ B)) size_prefix"
    from pos [OF occ size_prefix_facts(1,2) A(3) B(2) size_prefix_facts(3)]
    have i: "i = length A" .
    have l: "2 < length (?vb @ B)" using versionBadge_facts(4) [OF safe] by simp
    from third_char [OF occ [unfolded i] size_prefix_facts(5) l]
    have "size_prefix ! 2 = (?vb @ B) ! 2" .
    also have "\<dots> = ?vb ! 2" using versionBadge_facts(4) [OF safe] by (simp add: nth_append)
    finally show False using size_prefix_facts(4) versionBadge_facts(3) [OF safe] by simp
  qed
qed

lemma occurrences_after_run:
  assumes safe: "badge_safe v"
    and A: "A = [] \<or> last A = CHR 0x0A" "\<not> sublist version_prefix A" "\<not> sublist size_prefix A"
    and B: "\<not> sublist version_prefix B" "\<not> sublist size_prefix B"
  shows "startsWith (drop i (A @ versionBadge v @ CHR '' '' # sizeBadge (sizeStr n) @ B)) version_prefix
           \<Longrightarrow> i = length A"
    and "startsWith (drop i (A @ versionBadge v @ CHR '' '' # sizeBadge (sizeStr n) @ B)) size_prefix
           \<Longrightarrow> i = length A + length (versionBadge v) + 1"
proof -
  let ?vb = "versionBadge v" and ?sb = "sizeBadge (sizeStr n)"
  let ?Z = "?vb @ CHR '' '' # ?sb"
  let ?c = "A @ ?vb @ CHR '' '' # ?sb @ B"
  have c: "?c = A @ ?Z @ B" by simp
  have c2: "?c = (A @ ?vb @ '' '') @ ?sb @ B" by simp
  have sp: "CHR ''!'' \<noteq> CHR '' ''" by simp
  have pos: "i = length A \<or> i = length A + length ?vb + 1"
    if occ: "startsWith (drop i ?c) pat" and p: "pat \<noteq> []" "CHR 0x0A \<notin> set pat"
      "\<not> sublist pat A" "\<not> sublist pat B" and m: "pat ! 0 = CHR ''!''" for pat
  proof -
    from occ have occ': "startsWith (drop i (A @ ?Z @ B)) pat" by (simp only: c)
    from frame_marker [OF occ' p A(1)] m
    have r: "length A \<le> i" and k: "i - length A < length ?Z"
      and z: "?Z ! (i - length A) = CHR ''!''" by simp_all
    from k have k': "i - length A < length ?vb + 1 + length ?sb" by simp
    from marker_positions [OF z k' versionBadge_facts(1) [OF safe] sizeBadge_facts(1) sp]
    have "i - length A = 0 \<or> i - length A = length ?vb + 1" .
    with r show ?thesis by linarith
  qed
  have lv: "2 < length (?vb @ CHR '' '' # ?sb @ B)" using versionBadge_facts(4) [OF safe] by simp
  have ls: "2 < length (?sb @ B)" using sizeBadge_facts(3) [of n] by simp
  have v2: "(?vb @ CHR '' '' # ?sb @ B) ! 2 = CHR ''v''"
    using versionBadge_facts(3,4) [OF safe] by (simp add: nth_append)
  have s2: "(?sb @ B) ! 2 = CHR ''m''"
    using sizeBadge_facts(2,3) [of n] by (simp add: nth_append)
  show "i = length A" if occ: "startsWith (drop i ?c) version_prefix"
  proof (rule ccontr)
    assume "i \<noteq> length A"
    with pos [OF occ version_prefix_facts(1,2) A(2) B(1) version_prefix_facts(3)]
    have i: "i = length (A @ ?vb @ '' '')" by simp
    from occ have "startsWith (drop (length (A @ ?vb @ '' '')) ((A @ ?vb @ '' '') @ ?sb @ B)) version_prefix"
      unfolding i by (simp only: c2)
    from third_char [OF this version_prefix_facts(5) ls] s2 version_prefix_facts(4)
    show False by simp
  qed
  show "i = length A + length ?vb + 1" if occ: "startsWith (drop i ?c) size_prefix"
  proof (rule ccontr)
    assume "i \<noteq> length A + length ?vb + 1"
    with pos [OF occ size_prefix_facts(1,2) A(3) B(2) size_prefix_facts(3)]
    have i: "i = length A" by simp
    from third_char [OF occ [unfolded i] size_prefix_facts(5) lv] v2 size_prefix_facts(4)
    show False by simp
  qed
qed

subsection \<open>Two runs\<close>

lemma find_badge_None_if_no_occurrence:
  "(\<And>i. \<not> startsWith (drop i s) pre) \<Longrightarrow> find_badge pre s = None"
proof (rule ccontr)
  assume a: "\<And>i. \<not> startsWith (drop i s) pre" and "find_badge pre s \<noteq> None"
  then obtain i n where "find_badge pre s = Some (i, n)" by auto
  from find_badge_Some [OF this] have "badge_match_at pre (drop i s) = Some n" by simp
  from badge_match_startsWith [OF this] a show False by simp
qed

lemma first_run:
  assumes safe: "badge_safe v"
    and R: "\<not> sublist version_prefix R" "\<not> sublist size_prefix R"
  shows "\<exists>A B. run_update (versionBadge v) (sizeBadge (sizeStr n)) R =
           A @ versionBadge v @ CHR '' '' # sizeBadge (sizeStr n) @ B \<and>
         (A = [] \<or> last A = CHR 0x0A) \<and>
         \<not> sublist version_prefix A \<and> \<not> sublist size_prefix A \<and>
         \<not> sublist version_prefix B \<and> \<not> sublist size_prefix B"
proof -
  let ?vb = "versionBadge v" and ?sb = "sizeBadge (sizeStr n)"
  from find_badge_None_if_absent [OF R(1)] have "find_badge version_prefix R = None" .
  from update_version_insert [OF this, of ?vb] obtain A B where
    u: "update_version ?vb R = A @ ?vb @ B" and A: "A = [] \<or> last A = CHR 0x0A"
    and clean: "\<forall>pat. pat \<noteq> [] \<and> CHR 0x0A \<notin> set pat \<and> \<not> sublist pat R \<longrightarrow>
        \<not> sublist pat A \<and> \<not> sublist pat B" by blast
  from clean R version_prefix_facts(1,2) size_prefix_facts(1,2)
  have cl: "\<not> sublist version_prefix A" "\<not> sublist size_prefix A"
    "\<not> sublist version_prefix B" "\<not> sublist size_prefix B" by blast+
  note occ = occurrences_after_version_step [OF safe A cl]
  have nosize: "find_badge size_prefix (A @ ?vb @ B) = None"
    by (rule find_badge_None_if_no_occurrence) (rule occ(2))
  have "indexOf (A @ ?vb @ B) ?vb = Some (length A)"
  proof (rule indexOf_first)
    show "startsWith (drop (length A) (A @ ?vb @ B)) ?vb" by (simp add: startsWith_def)
    show "length A \<le> length (A @ ?vb @ B)" by simp
    show "\<forall>j<length A. \<not> startsWith (drop j (A @ ?vb @ B)) ?vb"
    proof (intro allI impI notI)
      fix j assume j: "j < length A" and "startsWith (drop j (A @ ?vb @ B)) ?vb"
      then have "startsWith (drop j (A @ ?vb @ B)) (version_prefix @ (v @ ''-blue)''))"
        by (simp add: versionBadge_def)
      from occ(1) [OF startsWith_prefix [OF this]] j show False by simp
    qed
  qed
  with nosize have "update_size ?vb ?sb (A @ ?vb @ B) = A @ ?vb @ CHR '' '' # ?sb @ B"
    by (simp add: update_size_def)
  with u A cl show ?thesis unfolding run_update_def by auto
qed

lemma second_run:
  assumes safe: "badge_safe v"
    and A: "A = [] \<or> last A = CHR 0x0A" "\<not> sublist version_prefix A" "\<not> sublist size_prefix A"
    and B: "\<not> sublist version_prefix B" "\<not> sublist size_prefix B"
  shows "run_update (versionBadge v) (sizeBadge (sizeStr n))
           (A @ versionBadge v @ CHR '' '' # sizeBadge (sizeStr n) @ B) =
         A @ versionBadge v @ CHR '' '' # sizeBadge (sizeStr n) @ B"
proof -
  let ?vb = "versionBadge v" and ?sb = "sizeBadge (sizeStr n)"
  let ?c = "A @ ?vb @ CHR '' '' # ?sb @ B"
  note occ = occurrences_after_run [OF safe A B, of _ n]
  have fv: "find_badge version_prefix ?c = Some (length A, length ?vb)"
  proof (rule find_badge_first)
    show "badge_match_at version_prefix (drop (length A) ?c) = Some (length ?vb)"
      using versionBadge_match [OF safe] by simp
    show "length A \<le> length ?c" by simp
    show "\<forall>j<length A. badge_match_at version_prefix (drop j ?c) = None"
    proof (intro allI impI)
      fix j assume j: "j < length A"
      show "badge_match_at version_prefix (drop j ?c) = None"
      proof (cases "badge_match_at version_prefix (drop j ?c)")
        case None
        then show ?thesis .
      next
        case (Some m)
        from occ(1) [OF badge_match_startsWith [OF Some]] j show ?thesis by simp
      qed
    qed
  qed
  have "drop (length A + length ?vb) ?c = CHR '' '' # ?sb @ B" by simp
  with fv have uv: "update_version ?vb ?c = ?c"
    by (simp add: update_version_def replace_badge_def
        get_substitution_plain [OF versionBadge_facts(2) [OF safe]])
  have c3: "?c = (A @ ?vb @ '' '') @ ?sb @ B" by simp
  have fs: "find_badge size_prefix ?c = Some (length A + length ?vb + 1, length ?sb)"
  proof (rule find_badge_first)
    have dl: "drop (length X) (X @ Y) = Y" for X Y :: string by simp
    have "drop (length (A @ ?vb @ '' '')) ((A @ ?vb @ '' '') @ ?sb @ B) = ?sb @ B"
      by (rule dl)
    then have "drop (length A + length ?vb + 1) ?c = ?sb @ B" by simp
    then show "badge_match_at size_prefix (drop (length A + length ?vb + 1) ?c) = Some (length ?sb)"
      using sizeBadge_match by simp
    show "length A + length ?vb + 1 \<le> length ?c" by simp
    show "\<forall>j<length A + length ?vb + 1. badge_match_at size_prefix (drop j ?c) = None"
    proof (intro allI impI)
      fix j assume j: "j < length A + length ?vb + 1"
      show "badge_match_at size_prefix (drop j ?c) = None"
      proof (cases "badge_match_at size_prefix (drop j ?c)")
        case None
        then show ?thesis .
      next
        case (Some m)
        from occ(2) [OF badge_match_startsWith [OF Some]] j show ?thesis by simp
      qed
    qed
  qed
  have t: "take (length A + length ?vb + 1) ?c = A @ ?vb @ '' ''" by simp
  have d: "drop (length A + length ?vb + 1 + length ?sb) ?c = B" by simp
  from fs t d have "update_size ?vb ?sb ?c = ?c"
    by (simp add: update_size_def replace_badge_def get_substitution_plain [OF sizeBadge_plain])
  with uv show ?thesis by (simp add: run_update_def)
qed

lemma filter_eq_upt: "length (filter (\<lambda>i. i = k) [0..<n]) = (if k < n then 1 else 0)"
  by (induction n) auto

lemma count_occurrences_one:
  assumes "startsWith (drop k s) pat" and "k \<le> length s"
    and "\<And>i. startsWith (drop i s) pat \<Longrightarrow> i = k"
  shows "count_occurrences pat s = 1"
proof -
  have "startsWith (drop i s) pat \<longleftrightarrow> i = k" for i
    using assms(1,3) by blast
  then have "(\<lambda>i. startsWith (drop i s) pat) = (\<lambda>i. i = k)" by (rule ext)
  then have "count_occurrences pat s = length (filter (\<lambda>i. i = k) [0..<Suc (length s)])"
    by (simp only: count_occurrences_def)
  also have "\<dots> = 1" using assms(2) by (simp only: filter_eq_upt) simp
  finally show ?thesis .
qed

lemma counts_after_run:
  assumes safe: "badge_safe v"
    and A: "A = [] \<or> last A = CHR 0x0A" "\<not> sublist version_prefix A" "\<not> sublist size_prefix A"
    and B: "\<not> sublist version_prefix B" "\<not> sublist size_prefix B"
  shows "count_occurrences (versionBadge v)
           (A @ versionBadge v @ CHR '' '' # sizeBadge (sizeStr n) @ B) = 1"
    and "count_occurrences (sizeBadge (sizeStr n))
           (A @ versionBadge v @ CHR '' '' # sizeBadge (sizeStr n) @ B) = 1"
proof -
  let ?vb = "versionBadge v" and ?sb = "sizeBadge (sizeStr n)"
  let ?c = "A @ ?vb @ CHR '' '' # ?sb @ B"
  note occ = occurrences_after_run [OF safe A B, of _ n]
  have dl: "drop (length X) (X @ Y) = Y" for X Y :: string by simp
  show "count_occurrences ?vb ?c = 1"
  proof (rule count_occurrences_one [of "length A"])
    show "startsWith (drop (length A) ?c) ?vb" by (simp add: startsWith_def)
    show "length A \<le> length ?c" by simp
    fix i assume "startsWith (drop i ?c) ?vb"
    then have "startsWith (drop i ?c) (version_prefix @ (v @ ''-blue)''))"
      by (simp add: versionBadge_def)
    from occ(1) [OF startsWith_prefix [OF this]] show "i = length A" .
  qed
  have c3: "?c = (A @ ?vb @ '' '') @ ?sb @ B" by simp
  show "count_occurrences ?sb ?c = 1"
  proof (rule count_occurrences_one [of "length A + length ?vb + 1"])
    have "drop (length (A @ ?vb @ '' '')) ((A @ ?vb @ '' '') @ ?sb @ B) = ?sb @ B" by (rule dl)
    then have "drop (length A + length ?vb + 1) ?c = ?sb @ B" by simp
    then show "startsWith (drop (length A + length ?vb + 1) ?c) ?sb" by (simp add: startsWith_def)
    show "length A + length ?vb + 1 \<le> length ?c" by simp
    fix i assume "startsWith (drop i ?c) ?sb"
    then have "startsWith (drop i ?c) (size_prefix @ (sizeStr n @ ''-success)''))"
      by (simp add: sizeBadge_def)
    from occ(2) [OF startsWith_prefix [OF this]] show "i = length A + length ?vb + 1" .
  qed
qed

lemma update_badges_run:
  assumes "files (resolve e pkgDir ''README.md'') = Some (File R True True)"
    and "readFileSync files (resolve e pkgDir ''package.json'') = Inr txt"
    and "json_parse e txt = Some pkg" and "get_field pkg ''version'' = Inr ver"
    and "to_string ver = Some v"
  shows "update_badges e files pkgDir bundle =
     Inr (files(resolve e pkgDir ''README.md'' \<mapsto>
       File (run_update (versionBadge v) (sizeBadge (sizeStr (bundle_size e bundle))) R) True True))"
  using assms
  by (simp add: update_badges_def Let_def readFileSync_def writeFileSync_def run_update_def)

text \<open>
  Claim C6, as amended. The README and the manifest can be read, the README can be
  written, the version printed in the badge has no closing parenthesis, exclamation mark
  or dollar sign, and the README contains neither badge prefix. Then the first run writes
  a README in which the version badge, a space and the size badge stand side by side, the
  second run writes that same README again, and each badge occurs in it exactly once.
\<close>

theorem C6_two_runs:
  assumes readme: "w_files w (resolve e pkgDir ''README.md'') = Some (File R True True)"
    and manifest: "readFileSync (w_files w) (resolve e pkgDir ''package.json'') = Inr txt"
      "json_parse e txt = Some pkg" "get_field pkg ''version'' = Inr ver" "to_string ver = Some v"
    and paths: "resolve e pkgDir ''README.md'' \<noteq> resolve e pkgDir ''package.json''"
    and safe: "badge_safe v"
    and R: "\<not> sublist version_prefix R" "\<not> sublist size_prefix R"
    and vb: "vb = versionBadge v" and sb: "sb = sizeBadge (sizeStr (bundle_size e bundle))"
  shows "let c = run_update vb sb R;
             w' = w \<lparr> w_files := (w_files w)(resolve e pkgDir ''README.md'' \<mapsto> File c True True) \<rparr>
         in writeBundle e pkgDir bundle w = Inr w' \<and>
            writeBundle e pkgDir bundle w' = Inr w' \<and>
            (\<exists>A B. c = A @ vb @ '' '' @ sb @ B) \<and>
            count_occurrences vb c = 1 \<and> count_occurrences sb c = 1"
proof -
  let ?readme = "resolve e pkgDir ''README.md''" and ?pkg = "resolve e pkgDir ''package.json''"
  let ?n = "bundle_size e bundle"
  from first_run [OF safe R, of ?n] obtain A B where
    run1: "run_update vb sb R = A @ vb @ CHR '' '' # sb @ B"
    and A: "A = [] \<or> last A = CHR 0x0A" "\<not> sublist version_prefix A" "\<not> sublist size_prefix A"
    and B: "\<not> sublist version_prefix B" "\<not> sublist size_prefix B"
    unfolding vb sb by blast
  let ?c = "A @ vb @ CHR '' '' # sb @ B"
  let ?files' = "(w_files w)(?readme \<mapsto> File ?c True True)"
  let ?w' = "w \<lparr> w_files := ?files' \<rparr>"
  from manifest(1) have ex: "existsSync (w_files w) ?pkg"
    by (auto simp: readFileSync_def existsSync_def split: option.splits)
  from readme have ex': "existsSync (w_files w) ?readme" by (simp add: existsSync_def)
  from update_badges_run [OF readme manifest, of "bundle"] run1
  have "update_badges e (w_files w) pkgDir bundle = Inr ?files'" by (simp add: vb sb)
  with ex ex' have 1: "writeBundle e pkgDir bundle w = Inr ?w'"
    by (simp add: writeBundle_def Let_def)
  from manifest(1) paths have m': "readFileSync ?files' ?pkg = Inr txt"
    by (simp add: readFileSync_def)
  have r': "?files' ?readme = Some (File ?c True True)" by simp
  from second_run [OF safe A B, of ?n]
  have run2: "run_update vb sb ?c = ?c" by (simp add: vb sb)
  from update_badges_run [OF r' m' manifest(2,3,4), of "bundle"] run2
  have "update_badges e ?files' pkgDir bundle = Inr ?files'" by (simp add: vb sb)
  moreover from ex paths have "existsSync ?files' ?pkg" by (simp add: existsSync_def)
  moreover have "existsSync ?files' ?readme" by (simp add: existsSync_def)
  ultimately have 2: "writeBundle e pkgDir bundle ?w' = Inr ?w'"
    by (simp add: writeBundle_def Let_def)
  from counts_after_run [OF safe A B, of ?n]
  have 3: "count_occurrences vb ?c = 1" "count_occurrences sb ?c = 1" by (simp_all add: vb sb)
  have 4: "\<exists>A B. ?c = A @ vb @ '' '' @ sb @ B" by (intro exI [of _ A] exI [of _ B]) simp
  from 1 2 3 4 show ?thesis unfolding Let_def run1 by (intro conjI)
qed

subsection \<open>The runs on the example package\<close>

lemma writeBundle_readme_fs:
  assumes "resolve e = join_path" and "json_parse e ''manifest text'' = Some pkg"
    and "get_field pkg ''version'' = Inr ver" and "to_string ver = Some v"
  shows "writeBundle e ''/pkg'' b \<lparr> w_files = readme_fs R, w_stderr = l \<rparr> =
     Inr \<lparr> w_files = readme_fs (run_update (versionBadge v) (sizeBadge (sizeStr (bundle_size e b))) R),
           w_stderr = l \<rparr>"
proof -
  have r: "readme_fs R (resolve e ''/pkg'' ''README.md'') = Some (File R True True)"
    by (simp add: assms(1) join_path_def readme_fs_def)
  have m: "readFileSync (readme_fs R) (resolve e ''/pkg'' ''package.json'') = Inr ''manifest text''"
    by (simp add: assms(1) join_path_def readme_fs_def example_fs_def readFileSync_def)
  have "existsSync (readme_fs R) (resolve e ''/pkg'' ''README.md'')"
    "existsSync (readme_fs R) (resolve e ''/pkg'' ''package.json'')"
    by (simp_all add: assms(1) join_path_def readme_fs_def example_fs_def existsSync_def)
  moreover have "(readme_fs R)(resolve e ''/pkg'' ''README.md'' \<mapsto> File c True True) = readme_fs c" for c
    by (simp add: assms(1) join_path_def readme_fs_def)
  ultimately show ?thesis
    using update_badges_run [OF r m assms(2,3,4), of b]
    by (simp add: writeBundle_def Let_def)
qed

lemma versioned_env_facts:
  "resolve (versioned_env v) = join_path"
  "json_parse (versioned_env v) t = Some (JObj [(''version'', JStr v)])"
  "bundle_size (versioned_env v) [] = 0"
  by (simp_all add: versioned_env_def example_env_def bundle_size_def)

lemma example_env_facts:
  "resolve example_env = join_path"
  "bundle_size example_env [] = 0"
  by (simp_all add: example_env_def bundle_size_def)

text \<open>
  The claim as stated fails. With the manifest version \<open>)\<close> the badge is not a match of
  its own pattern, and the second run inserts a second version badge. With a README that
  holds the size badge prefix and no closing parenthesis, the size pattern matches from
  that prefix through the version badge just inserted, and the first run leaves no version
  badge.
\<close>

theorem C6_counterexample:
  "writeBundle (versioned_env '')'') ''/pkg'' [] \<lparr> w_files = readme_fs ''# T'', w_stderr = [] \<rparr> =
     Inr \<lparr> w_files = readme_fs
             (''# T'' @ [CHR 0x0A, CHR 0x0A] @ versionBadge '')'' @ '' '' @ sizeBadge ''0.00kB''),
           w_stderr = [] \<rparr> \<and>
   writeBundle (versioned_env '')'') ''/pkg'' []
       \<lparr> w_files = readme_fs
             (''# T'' @ [CHR 0x0A, CHR 0x0A] @ versionBadge '')'' @ '' '' @ sizeBadge ''0.00kB''),
         w_stderr = [] \<rparr> =
     Inr \<lparr> w_files = readme_fs
             (''# T'' @ [CHR 0x0A, CHR 0x0A] @ versionBadge '')'' @ [CHR 0x0A, CHR 0x0A] @
              versionBadge '')'' @ '' '' @ sizeBadge ''0.00kB''),
           w_stderr = [] \<rparr> \<and>
   count_occurrences (versionBadge '')'')
     (''# T'' @ [CHR 0x0A, CHR 0x0A] @ versionBadge '')'' @ [CHR 0x0A, CHR 0x0A] @
      versionBadge '')'' @ '' '' @ sizeBadge ''0.00kB'') = 2 \<and>
   writeBundle example_env ''/pkg'' []
       \<lparr> w_files = readme_fs (''# T '' @ size_prefix @ ''x''), w_stderr = [] \<rparr> =
     Inr \<lparr> w_files = readme_fs (''# T '' @ sizeBadge ''0.00kB''), w_stderr = [] \<rparr> \<and>
   count_occurrences (versionBadge ''1.2.3'') (''# T '' @ sizeBadge ''0.00kB'') = 0"
proof -
  have 1: "run_update (versionBadge '')'') (sizeBadge (sizeStr 0)) ''# T'' =
      ''# T'' @ [CHR 0x0A, CHR 0x0A] @ versionBadge '')'' @ '' '' @ sizeBadge ''0.00kB''"
    by code_simp
  have 2: "run_update (versionBadge '')'') (sizeBadge (sizeStr 0))
      (''# T'' @ [CHR 0x0A, CHR 0x0A] @ versionBadge '')'' @ '' '' @ sizeBadge ''0.00kB'') =
      ''# T'' @ [CHR 0x0A, CHR 0x0A] @ versionBadge '')'' @ [CHR 0x0A, CHR 0x0A] @
              versionBadge '')'' @ '' '' @ sizeBadge ''0.00kB''"
    by code_simp
  have 3: "count_occurrences (versionBadge '')'')
     (''# T'' @ [CHR 0x0A, CHR 0x0A] @ versionBadge '')'' @ [CHR 0x0A, CHR 0x0A] @
      versionBadge '')'' @ '' '' @ sizeBadge ''0.00kB'') = 2"
    by code_simp
  have 4: "run_update (versionBadge ''1.2.3'') (sizeBadge (sizeStr 0)) (''# T '' @ size_prefix @ ''x'') =
      ''# T '' @ sizeBadge ''0.00kB''"
    by code_simp
  have 5: "count_occurrences (versionBadge ''1.2.3'') (''# T '' @ sizeBadge ''0.00kB'') = 0"
    by code_simp
  have v: "get_field (JObj [(''version'', JStr '')'')]) ''version'' = Inr (JStr '')'')"
    "to_string (JStr '')'') = Some '')''"
    "get_field example_manifest ''version'' = Inr (JStr ''1.2.3'')"
    "to_string (JStr ''1.2.3'') = Some ''1.2.3''"
    by (simp_all add: example_manifest_def)
  note a = writeBundle_readme_fs [OF versioned_env_facts(1,2) v(1,2), of "[]", unfolded versioned_env_facts(3)]
  note b = writeBundle_readme_fs [OF example_env_facts(1) example_parse v(3,4), of "[]", unfolded example_env_facts(2)]
  show ?thesis
    by (simp only: a b 1 2 3 4 5 simp_thms)
qed

text \<open>
  The three cases: neither badge, the version badge alone, an older size badge.
\<close>

theorem C7_size_step_witness:
  "update_size (versionBadge ''1.2.3'') (sizeBadge (sizeStr 2048)) ''plain text'' = ''plain text'' \<and>
   update_size (versionBadge ''1.2.3'') (sizeBadge (sizeStr 2048))
     (''a '' @ versionBadge ''1.2.3'' @ '' b'') =
     ''a '' @ versionBadge ''1.2.3'' @ '' '' @ sizeBadge ''2.00kB'' @ '' b'' \<and>
   update_size (versionBadge ''1.2.3'') (sizeBadge (sizeStr 2048))
     (''x '' @ sizeBadge ''9.99kB'' @ '' y'') =
     ''x '' @ sizeBadge ''2.00kB'' @ '' y''"
proof -
  have s: "sizeStr 2048 = ''2.00kB''"
    by (simp add: sizeStr_def toFixed2_def show_nat.simps digit_char_def Let_def)
  have "find_badge size_prefix ''plain text'' = None" by code_simp
  then have n1: "\<not> (\<exists>a u b. ''plain text'' = a @ size_prefix @ u @ CHR 0x29 # b \<and> u \<noteq> [] \<and>
      CHR 0x29 \<notin> set u)"
    by (rule iffD1 [OF find_badge_None_iff])
  have "indexOf ''plain text'' (versionBadge ''1.2.3'') = None" by code_simp
  then have n2: "\<not> (\<exists>a b. ''plain text'' = a @ versionBadge ''1.2.3'' @ b)"
    by (rule iffD1 [OF indexOf_None_iff])
  from C7_size_step [of "''plain text''" "versionBadge ''1.2.3''" 2048]
  have 1: "update_size (versionBadge ''1.2.3'') (sizeBadge (sizeStr 2048)) ''plain text'' = ''plain text''"
    by (simp only: n1 n2 if_False)
  have 2: "update_size (versionBadge ''1.2.3'') (sizeBadge (sizeStr 2048))
     (''a '' @ versionBadge ''1.2.3'' @ '' b'') =
     ''a '' @ versionBadge ''1.2.3'' @ '' '' @ sizeBadge ''2.00kB'' @ '' b''"
    unfolding s by code_simp
  have 3: "update_size (versionBadge ''1.2.3'') (sizeBadge (sizeStr 2048))
     (''x '' @ sizeBadge ''9.99kB'' @ '' y'') =
     ''x '' @ sizeBadge ''2.00kB'' @ '' y''"
    unfolding s by code_simp
  from 1 2 3 show ?thesis by (simp only: simp_thms)
qed

text \<open>
  A README of a title and one line of text, version \<open>1.2.3\<close>, one code chunk and one asset.
\<close>

theorem C6_two_runs_witness:
  "writeBundle example_env ''/pkg'' [Chunk ''x'', Asset]
     \<lparr> w_files = readme_fs (''# T'' @ [CHR 0x0A] @ ''x''), w_stderr = [] \<rparr> =
     Inr \<lparr> w_files = readme_fs
             (''# T'' @ [CHR 0x0A, CHR 0x0A] @ versionBadge ''1.2.3'' @ '' '' @ sizeBadge ''0.00kB'' @
              [CHR 0x0A] @ ''x''),
           w_stderr = [] \<rparr> \<and>
   writeBundle example_env ''/pkg'' [Chunk ''x'', Asset]
     \<lparr> w_files = readme_fs
         (''# T'' @ [CHR 0x0A, CHR 0x0A] @ versionBadge ''1.2.3'' @ '' '' @ sizeBadge ''0.00kB'' @
          [CHR 0x0A] @ ''x''),
       w_stderr = [] \<rparr> =
     Inr \<lparr> w_files = readme_fs
             (''# T'' @ [CHR 0x0A, CHR 0x0A] @ versionBadge ''1.2.3'' @ '' '' @ sizeBadge ''0.00kB'' @
              [CHR 0x0A] @ ''x''),
           w_stderr = [] \<rparr> \<and>
   count_occurrences (versionBadge ''1.2.3'')
     (''# T'' @ [CHR 0x0A, CHR 0x0A] @ versionBadge ''1.2.3'' @ '' '' @ sizeBadge ''0.00kB'' @
      [CHR 0x0A] @ ''x'') = 1 \<and>
   count_occurrences (sizeBadge ''0.00kB'')
     (''# T'' @ [CHR 0x0A, CHR 0x0A] @ versionBadge ''1.2.3'' @ '' '' @ sizeBadge ''0.00kB'' @
      [CHR 0x0A] @ ''x'') = 1"
proof -
  let ?R = "''# T'' @ [CHR 0x0A] @ ''x''"
  let ?w = "\<lparr> w_files = readme_fs ?R, w_stderr = [] \<rparr>"
  have s: "sizeStr (bundle_size example_env [Chunk ''x'', Asset]) = ''0.00kB''"
    unfolding bundle_size_def example_env_def by code_simp
  have h: "w_files ?w (resolve example_env ''/pkg'' ''README.md'') = Some (File ?R True True)"
    "readFileSync (w_files ?w) (resolve example_env ''/pkg'' ''package.json'') = Inr ''manifest text''"
    "resolve example_env ''/pkg'' ''README.md'' \<noteq> resolve example_env ''/pkg'' ''package.json''"
    by (simp_all add: example_resolve readme_fs_def example_fs_def readFileSync_def)
  have v: "get_field example_manifest ''version'' = Inr (JStr ''1.2.3'')"
    "to_string (JStr ''1.2.3'') = Some ''1.2.3''"
    "badge_safe ''1.2.3''"
    by (simp_all add: example_manifest_def badge_safe_def)
  have c: "\<not> sublist version_prefix ?R" "\<not> sublist size_prefix ?R"
    by (simp_all add: version_prefix_def size_prefix_def sublist_Cons_right)
  have u: "?w \<lparr> w_files := (w_files ?w)(resolve example_env ''/pkg'' ''README.md'' \<mapsto> File c True True) \<rparr> =
      \<lparr> w_files = readme_fs c, w_stderr = [] \<rparr>" for c
    by (simp add: example_resolve readme_fs_def)
  have r: "run_update (versionBadge ''1.2.3'') (sizeBadge ''0.00kB'') ?R =
     ''# T'' @ [CHR 0x0A, CHR 0x0A] @ versionBadge ''1.2.3'' @ '' '' @ sizeBadge ''0.00kB'' @
     [CHR 0x0A] @ ''x''"
    by code_simp
  from C6_two_runs [OF h(1,2) example_parse v(1,2) h(3) v(3) c refl refl, of "[Chunk ''x'', Asset]"]
  show ?thesis
    unfolding Let_def s u r by (elim conjE, intro conjI)
qed

end
